theory Spec2Isabelle
  imports Main "HOL-Library.Word"
begin

unbundle bit_operations_syntax

section \<open>Python strings\<close>

text \<open>
  A Python \<open>str\<close> is modelled as a \<open>string\<close> whose characters are the code points
  below 256 (\<open>of_char c\<close> is the code point). The helpers below are the \<open>str\<close> methods
  the crawler and the standard library functions it calls rely on.
\<close>

datatype py_error = ValueError | OSError

definition py_isspace :: "char \<Rightarrow> bool" where
  "py_isspace c = (of_char c \<in> {9, 10, 11, 12, 13, 28, 29, 30, 31, 32, 133, 160 :: nat})"

definition py_strip :: "string \<Rightarrow> string" where
  "py_strip s = rev (dropWhile py_isspace (rev (dropWhile py_isspace s)))"

definition lstrip_chars :: "(char \<Rightarrow> bool) \<Rightarrow> string \<Rightarrow> string" where
  "lstrip_chars P s = dropWhile P s"

definition strip_chars :: "(char \<Rightarrow> bool) \<Rightarrow> string \<Rightarrow> string" where
  "strip_chars P s = rev (dropWhile P (rev (dropWhile P s)))"

definition py_lower_char :: "char \<Rightarrow> char" where
  "py_lower_char c =
     (let n = (of_char c :: nat) in
      if (65 \<le> n \<and> n \<le> 90) \<or> (192 \<le> n \<and> n \<le> 222 \<and> n \<noteq> 215)
      then char_of (n + 32) else c)"

definition py_lower :: "string \<Rightarrow> string" where
  "py_lower s = map py_lower_char s"

definition startswith :: "string \<Rightarrow> string \<Rightarrow> bool" where
  "startswith s p = (take (length p) s = p)"

definition endswith :: "string \<Rightarrow> string \<Rightarrow> bool" where
  "endswith s p = (length p \<le> length s \<and> drop (length s - length p) s = p)"

text \<open>\<open>s.split(c, 1)\<close> for a \<open>c\<close> that occurs in \<open>s\<close>; also \<open>s[:i], s[i+1:]\<close> for
  \<open>i = s.find(c)\<close>.\<close>

definition split1 :: "char \<Rightarrow> string \<Rightarrow> string \<times> string" where
  "split1 c s = (takeWhile (\<lambda>x. x \<noteq> c) s, drop 1 (dropWhile (\<lambda>x. x \<noteq> c) s))"

text \<open>\<open>s.partition(c)\<close>: the middle component is reported as the flag "found".\<close>

definition partition_str :: "char \<Rightarrow> string \<Rightarrow> string \<times> bool \<times> string" where
  "partition_str c s = (if c \<in> set s then (fst (split1 c s), True, snd (split1 c s)) else (s, False, []))"

text \<open>\<open>s.rpartition(c)\<close>: splits at the last occurrence; all of \<open>s\<close> is the third
  component when \<open>c\<close> does not occur.\<close>

definition rpartition_str :: "char \<Rightarrow> string \<Rightarrow> string \<times> bool \<times> string" where
  "rpartition_str c s =
     (if c \<in> set s
      then (rev (drop 1 (dropWhile (\<lambda>x. x \<noteq> c) (rev s))), True, rev (takeWhile (\<lambda>x. x \<noteq> c) (rev s)))
      else ([], False, s))"

text \<open>\<open>s.split(c)\<close>: never empty, \<open>''''.split(c) = ['''']\<close>.\<close>

fun py_split :: "char \<Rightarrow> string \<Rightarrow> string list" where
  "py_split c [] = [[]]"
| "py_split c (x # xs) =
     (if x = c then [] # py_split c xs
      else (case py_split c xs of [] \<Rightarrow> [[x]] | p # ps \<Rightarrow> (x # p) # ps))"

fun py_join :: "string \<Rightarrow> string list \<Rightarrow> string" where
  "py_join sep [] = []"
| "py_join sep [x] = x"
| "py_join sep (x # y # ys) = x @ sep @ py_join sep (y # ys)"

section \<open>urllib.parse\<close>

text \<open>
  The crawler calls \<open>urlparse\<close>, \<open>urldefrag\<close> and \<open>urljoin\<close> of the standard library
  (CPython 3.11). They are written out here. Two library checks are not:
  \<^item> the validation of a bracketed host (\<open>_check_bracketed_host\<close>, which asks the
    \<open>ipaddress\<close> module) is the parameter \<open>ipv\<close>: \<open>ipv h\<close> holds when the library accepts
    \<open>h\<close>. Every theorem holds for every \<open>ipv\<close>;
  \<^item> \<open>_checknetloc\<close> raises only when the NFKC form of a non-ASCII netloc contains one of
    \<open>/?#@:\<close>, which no code point below 256 produces, so it is a no-op here.
\<close>

definition uses_relative :: "string list" where
  "uses_relative = ['''', ''ftp'', ''http'', ''gopher'', ''nntp'', ''imap'',
     ''wais'', ''file'', ''https'', ''shttp'', ''mms'',
     ''prospero'', ''rtsp'', ''rtsps'', ''rtspu'', ''sftp'',
     ''svn'', ''svn+ssh'', ''ws'', ''wss'']"

definition uses_netloc :: "string list" where
  "uses_netloc = ['''', ''ftp'', ''http'', ''gopher'', ''nntp'', ''telnet'',
     ''imap'', ''wais'', ''file'', ''mms'', ''https'', ''shttp'',
     ''snews'', ''prospero'', ''rtsp'', ''rtsps'', ''rtspu'', ''rsync'',
     ''svn'', ''svn+ssh'', ''sftp'', ''nfs'', ''git'', ''git+ssh'',
     ''ws'', ''wss'']"

definition uses_params :: "string list" where
  "uses_params = ['''', ''ftp'', ''hdl'', ''prospero'', ''http'', ''imap'',
     ''https'', ''shttp'', ''rtsp'', ''rtsps'', ''rtspu'', ''sip'',
     ''sips'', ''mms'', ''sftp'', ''tel'']"

definition scheme_chars :: "string" where
  "scheme_chars = ''abcdefghijklmnopqrstuvwxyzABCDEFGHIJKLMNOPQRSTUVWXYZ0123456789+-.''"

definition c0_control_or_space :: "char \<Rightarrow> bool" where
  "c0_control_or_space c = ((of_char c :: nat) \<le> 32)"

definition unsafe_url_byte :: "char \<Rightarrow> bool" where
  "unsafe_url_byte c = (of_char c \<in> {9, 13, 10 :: nat})"

definition remove_unsafe :: "string \<Rightarrow> string" where
  "remove_unsafe s = filter (\<lambda>c. \<not> unsafe_url_byte c) s"

definition ascii_alpha :: "char \<Rightarrow> bool" where
  "ascii_alpha c = (let n = (of_char c :: nat) in (65 \<le> n \<and> n \<le> 90) \<or> (97 \<le> n \<and> n \<le> 122))"

definition netloc_delim :: "char \<Rightarrow> bool" where
  "netloc_delim c = (c = CHR ''/'' \<or> c = CHR ''?'' \<or> c = CHR ''#'')"

text \<open>\<open>_splitnetloc(url, 2)\<close>: the text after the two slashes up to the first of
  \<open>/?#\<close>, and the rest.\<close>

definition splitnetloc :: "string \<Rightarrow> string \<times> string" where
  "splitnetloc url = (takeWhile (\<lambda>c. \<not> netloc_delim c) (drop 2 url),
                      dropWhile (\<lambda>c. \<not> netloc_delim c) (drop 2 url))"

text \<open>The scheme prefix of \<open>urlsplit\<close>: the given default scheme survives unless the
  text before the first colon is a well-formed scheme.\<close>

definition split_scheme :: "string \<Rightarrow> string \<Rightarrow> string \<times> string" where
  "split_scheme dflt url =
     (if CHR '':'' \<in> set url \<and> takeWhile (\<lambda>x. x \<noteq> CHR '':'') url \<noteq> [] \<and> ascii_alpha (hd url)
         \<and> (\<forall>c \<in> set (takeWhile (\<lambda>x. x \<noteq> CHR '':'') url). c \<in> set scheme_chars)
      then (py_lower (fst (split1 CHR '':'' url)), snd (split1 CHR '':'' url))
      else (dflt, url))"

text \<open>\<open>urlsplit(url, scheme)\<close>: (scheme, netloc, path, query, fragment).\<close>

definition urlsplit :: "(string \<Rightarrow> bool) \<Rightarrow> string \<Rightarrow> string
    \<Rightarrow> py_error + (string \<times> string \<times> string \<times> string \<times> string)" where
  "urlsplit ipv url0 scheme0 =
     (let url1 = remove_unsafe (lstrip_chars c0_control_or_space url0);
          scheme1 = remove_unsafe (strip_chars c0_control_or_space scheme0);
          (scheme, url2) = split_scheme scheme1 url1;
          (netloc, url3) = (if take 2 url2 = ''//'' then splitnetloc url2 else ([], url2))
      in if take 2 url2 = ''//'' \<and>
            ((CHR ''['' \<in> set netloc \<and> CHR '']'' \<notin> set netloc) \<or>
             (CHR '']'' \<in> set netloc \<and> CHR ''['' \<notin> set netloc))
         then Inl ValueError
         else if take 2 url2 = ''//'' \<and> CHR ''['' \<in> set netloc \<and> CHR '']'' \<in> set netloc
                 \<and> \<not> ipv (fst (partition_str CHR '']'' (snd (snd (partition_str CHR ''['' netloc)))))
         then Inl ValueError
         else
           (let (url4, fragment) = (if CHR ''#'' \<in> set url3 then split1 CHR ''#'' url3 else (url3, []));
                (url5, query) = (if CHR ''?'' \<in> set url4 then split1 CHR ''?'' url4 else (url4, []))
            in Inr (scheme, netloc, url5, query, fragment)))"

record parse_result =
  scheme :: string
  netloc :: string
  path :: string
  params :: string
  query :: string
  fragment :: string

definition splitparams :: "string \<Rightarrow> string \<times> string" where
  "splitparams url =
     (if CHR ''/'' \<in> set url
      then (case rpartition_str CHR ''/'' url of (dir, _, fname) \<Rightarrow>
              if CHR '';'' \<in> set fname
              then (dir @ ''/'' @ fst (split1 CHR '';'' fname), snd (split1 CHR '';'' fname))
              else (url, []))
      else split1 CHR '';'' url)"

definition urlparse :: "(string \<Rightarrow> bool) \<Rightarrow> string \<Rightarrow> string \<Rightarrow> py_error + parse_result" where
  "urlparse ipv url scheme0 =
     (case urlsplit ipv url scheme0 of
        Inl e \<Rightarrow> Inl e
      | Inr (sch, nl, u, q, f) \<Rightarrow>
          (let (u', prm) = (if sch \<in> set uses_params \<and> CHR '';'' \<in> set u then splitparams u else (u, []))
           in Inr \<lparr>scheme = sch, netloc = nl, path = u', params = prm, query = q, fragment = f\<rparr>))"

definition urlunsplit :: "string \<times> string \<times> string \<times> string \<times> string \<Rightarrow> string" where
  "urlunsplit c =
     (case c of (sch, nl, url, q, f) \<Rightarrow>
        (let url1 = (if nl \<noteq> [] \<or> (sch \<noteq> [] \<and> sch \<in> set uses_netloc) \<or> take 2 url = ''//''
                     then ''//'' @ nl @ (if url \<noteq> [] \<and> take 1 url \<noteq> ''/'' then ''/'' @ url else url)
                     else url);
             url2 = (if sch \<noteq> [] then sch @ '':'' @ url1 else url1);
             url3 = (if q \<noteq> [] then url2 @ ''?'' @ q else url2)
         in if f \<noteq> [] then url3 @ ''#'' @ f else url3))"

definition urlunparse :: "parse_result \<Rightarrow> string" where
  "urlunparse p =
     urlunsplit (scheme p, netloc p,
                 (if params p \<noteq> [] then path p @ '';'' @ params p else path p),
                 query p, fragment p)"

definition urldefrag :: "(string \<Rightarrow> bool) \<Rightarrow> string \<Rightarrow> py_error + (string \<times> string)" where
  "urldefrag ipv url =
     (if CHR ''#'' \<in> set url
      then (case urlparse ipv url [] of
              Inl e \<Rightarrow> Inl e
            | Inr p \<Rightarrow> Inr (urlunparse (p\<lparr>fragment := []\<rparr>), fragment p))
      else Inr (url, []))"

text \<open>The \<open>hostname\<close> property of a parse result: \<open>None\<close> when the host part is empty,
  lower-cased up to a zone identifier.\<close>

definition hostinfo_host :: "string \<Rightarrow> string" where
  "hostinfo_host nl =
     (case rpartition_str CHR ''@'' nl of (_, _, hostinfo) \<Rightarrow>
        (case partition_str CHR ''['' hostinfo of (_, have_open_br, bracketed) \<Rightarrow>
           if have_open_br then fst (partition_str CHR '']'' bracketed)
           else fst (partition_str CHR '':'' hostinfo)))"

definition hostname :: "parse_result \<Rightarrow> string option" where
  "hostname p =
     (let h = hostinfo_host (netloc p)
      in if h = [] then None
         else (case partition_str CHR ''%'' h of (host, percent, zone) \<Rightarrow>
                 Some (py_lower host @ (if percent then ''%'' else []) @ zone)))"

text \<open>\<open>urljoin(base, url)\<close>.\<close>

definition join_segments :: "string list \<Rightarrow> string list" where
  "join_segments segs =
     (if length segs < 2 then segs
      else hd segs # filter (\<lambda>x. x \<noteq> []) (butlast (tl segs)) @ [last segs])"

definition resolve_step :: "string list \<Rightarrow> string \<Rightarrow> string list" where
  "resolve_step resolved seg =
     (if seg = ''..'' then butlast resolved
      else if seg = ''.'' then resolved
      else resolved @ [seg])"

definition resolve_path :: "string \<Rightarrow> string \<Rightarrow> string" where
  "resolve_path bpath upath =
     (let base_parts0 = py_split CHR ''/'' bpath;
          base_parts = (if last base_parts0 \<noteq> [] then butlast base_parts0 else base_parts0);
          segments = (if take 1 upath = ''/'' then py_split CHR ''/'' upath
                      else join_segments (base_parts @ py_split CHR ''/'' upath));
          resolved0 = foldl resolve_step [] segments;
          resolved = (if last segments = ''.'' \<or> last segments = ''..''
                      then resolved0 @ [[]] else resolved0);
          joined = py_join ''/'' resolved
      in if joined = [] then ''/'' else joined)"

definition urljoin_parsed :: "parse_result \<Rightarrow> parse_result \<Rightarrow> string \<Rightarrow> string" where
  "urljoin_parsed b u url =
     (if scheme u \<noteq> scheme b \<or> scheme u \<notin> set uses_relative then url
      else if scheme u \<in> set uses_netloc \<and> netloc u \<noteq> [] then urlunparse u
      else
        (let nl = (if scheme u \<in> set uses_netloc then netloc b else netloc u)
         in if path u = [] \<and> params u = []
            then urlunparse (u\<lparr>netloc := nl, path := path b, params := params b,
                                query := (if query u = [] then query b else query u)\<rparr>)
            else urlunparse (u\<lparr>netloc := nl, path := resolve_path (path b) (path u)\<rparr>)))"

definition urljoin :: "(string \<Rightarrow> bool) \<Rightarrow> string \<Rightarrow> string \<Rightarrow> py_error + string" where
  "urljoin ipv base url =
     (if base = [] then Inr url
      else if url = [] then Inr base
      else
        (case urlparse ipv base [] of
           Inl e \<Rightarrow> Inl e
         | Inr b \<Rightarrow>
             (case urlparse ipv url (scheme b) of
                Inl e \<Rightarrow> Inl e
              | Inr u \<Rightarrow> Inr (urljoin_parsed b u url))))"

section \<open>pathlib\<close>

text \<open>
  A pure POSIX path as \<open>pathlib\<close> keeps it: the root (empty, \<open>/\<close> or \<open>//\<close>) and the
  components after it. Joining parses the right operand, which drops empty and \<open>.\<close>
  components and lets an operand that starts with a slash replace the left one.
\<close>

record pypath =
  p_root :: string
  p_parts :: "string list"

definition splitroot :: "string \<Rightarrow> string \<times> string" where
  "splitroot part =
     (if part \<noteq> [] \<and> hd part = CHR ''/''
      then (let stripped = dropWhile (\<lambda>c. c = CHR ''/'') part
            in if length part - length stripped = 2 then (''//'', stripped) else (''/'', stripped))
      else ([], part))"

definition parse_part :: "string \<Rightarrow> string \<times> string list" where
  "parse_part part =
     (case splitroot part of (r, rel) \<Rightarrow>
        (r, filter (\<lambda>x. x \<noteq> [] \<and> x \<noteq> ''.'') (py_split CHR ''/'' rel)))"

definition path_of :: "string \<Rightarrow> pypath" where
  "path_of s = (case parse_part s of (r, ps) \<Rightarrow> \<lparr>p_root = r, p_parts = ps\<rparr>)"

definition path_div :: "pypath \<Rightarrow> string \<Rightarrow> pypath" where
  "path_div p key =
     (case parse_part key of (r2, ps2) \<Rightarrow>
        if r2 \<noteq> [] then \<lparr>p_root = r2, p_parts = ps2\<rparr>
        else \<lparr>p_root = p_root p, p_parts = p_parts p @ ps2\<rparr>)"

definition path_name :: "pypath \<Rightarrow> string" where
  "path_name p = (if p_parts p = [] then [] else last (p_parts p))"

definition path_parent :: "pypath \<Rightarrow> pypath" where
  "path_parent p = (if p_parts p = [] then p else p\<lparr>p_parts := butlast (p_parts p)\<rparr>)"

text \<open>\<open>name.rfind('.')\<close> as the text after the last dot; the suffix counts when the dot is
  neither the first nor the last character of the name.\<close>

definition after_last_dot :: "string \<Rightarrow> string" where
  "after_last_dot name = rev (takeWhile (\<lambda>c. c \<noteq> CHR ''.'') (rev name))"

definition has_suffix :: "string \<Rightarrow> bool" where
  "has_suffix name =
     (CHR ''.'' \<in> set name \<and> after_last_dot name \<noteq> [] \<and> Suc (length (after_last_dot name)) < length name)"

definition name_suffix :: "string \<Rightarrow> string" where
  "name_suffix name = (if has_suffix name then CHR ''.'' # after_last_dot name else [])"

definition name_stem :: "string \<Rightarrow> string" where
  "name_stem name =
     (if has_suffix name then take (length name - Suc (length (after_last_dot name))) name else name)"

definition name_suffixes :: "string \<Rightarrow> string list" where
  "name_suffixes name =
     (if name \<noteq> [] \<and> last name = CHR ''.'' then []
      else map (\<lambda>s. CHR ''.'' # s) (tl (py_split CHR ''.'' (dropWhile (\<lambda>c. c = CHR ''.'') name))))"

definition path_suffix :: "pypath \<Rightarrow> string" where
  "path_suffix p = name_suffix (path_name p)"

definition path_stem :: "pypath \<Rightarrow> string" where
  "path_stem p = name_stem (path_name p)"

definition path_suffixes :: "pypath \<Rightarrow> string list" where
  "path_suffixes p = name_suffixes (path_name p)"

definition with_suffix :: "pypath \<Rightarrow> string \<Rightarrow> py_error + pypath" where
  "with_suffix p sfx =
     (if CHR ''/'' \<in> set sfx then Inl ValueError
      else if (sfx \<noteq> [] \<and> \<not> startswith sfx ''.'') \<or> sfx = ''.'' then Inl ValueError
      else if path_name p = [] then Inl ValueError
      else Inr (p\<lparr>p_parts := butlast (p_parts p) @
                  [(if path_suffix p = [] then path_name p
                    else take (length (path_name p) - length (path_suffix p)) (path_name p)) @ sfx]\<rparr>))"

definition path_str :: "pypath \<Rightarrow> string" where
  "path_str p =
     (let s = p_root p @ py_join ''/'' (p_parts p) in if s = [] then ''.'' else s)"

section \<open>hashlib.sha1\<close>

text \<open>
  SHA-1 on a list of bytes. A 32-bit word is a natural number below \<open>2 ^ 32\<close>, with the
  wrap-around of addition and rotation written out.
\<close>

definition add32 :: "nat \<Rightarrow> nat \<Rightarrow> nat" where
  "add32 a b = (a + b) mod 4294967296"

definition not32 :: "nat \<Rightarrow> nat" where
  "not32 a = a XOR 4294967295"

definition rotl32 :: "nat \<Rightarrow> nat \<Rightarrow> nat" where
  "rotl32 n x = take_bit 32 (push_bit n x) OR drop_bit (32 - n) x"

definition be_bytes8 :: "nat \<Rightarrow> nat list" where
  "be_bytes8 n = map (\<lambda>i. (n div 256 ^ i) mod 256) [7, 6, 5, 4, 3, 2, 1, 0]"

definition sha1_pad :: "nat list \<Rightarrow> nat list" where
  "sha1_pad m = m @ [128] @ replicate ((119 - length m mod 64) mod 64) 0 @ be_bytes8 (8 * length m)"

fun be_words :: "nat list \<Rightarrow> nat list" where
  "be_words (a # b # c # d # r) = (((a * 256 + b) * 256 + c) * 256 + d) # be_words r"
| "be_words _ = []"

definition sha1_schedule :: "nat list \<Rightarrow> nat list" where
  "sha1_schedule w16 =
     foldl (\<lambda>w t. w @ [rotl32 1 (w ! (t - 3) XOR w ! (t - 8) XOR w ! (t - 14) XOR w ! (t - 16))])
           w16 [16..<80]"

definition sha1_f :: "nat \<Rightarrow> nat \<Rightarrow> nat \<Rightarrow> nat \<Rightarrow> nat" where
  "sha1_f t b c d =
     (if t < 20 then (b AND c) OR (not32 b AND d)
      else if t < 40 then b XOR c XOR d
      else if t < 60 then (b AND c) OR (b AND d) OR (c AND d)
      else b XOR c XOR d)"

definition sha1_k :: "nat \<Rightarrow> nat" where
  "sha1_k t = (if t < 20 then 0x5A827999 else if t < 40 then 0x6ED9EBA1
               else if t < 60 then 0x8F1BBCDC else 0xCA62C1D6)"

type_synonym sha1_state = "nat \<times> nat \<times> nat \<times> nat \<times> nat"

fun sha1_round :: "sha1_state \<Rightarrow> nat \<times> nat \<Rightarrow> sha1_state" where
  "sha1_round (a, b, c, d, e) (t, w) =
     (add32 (add32 (add32 (add32 (rotl32 5 a) (sha1_f t b c d)) e) (sha1_k t)) w,
      a, rotl32 30 b, c, d)"

fun sha1_block :: "sha1_state \<Rightarrow> nat list \<Rightarrow> sha1_state" where
  "sha1_block (h0, h1, h2, h3, h4) blk =
     (case foldl sha1_round (h0, h1, h2, h3, h4) (zip [0..<80] (sha1_schedule (be_words blk))) of
        (a, b, c, d, e) \<Rightarrow> (add32 h0 a, add32 h1 b, add32 h2 c, add32 h3 d, add32 h4 e))"

definition sha1_init :: sha1_state where
  "sha1_init = (0x67452301, 0xEFCDAB89, 0x98BADCFE, 0x10325476, 0xC3D2E1F0)"

definition sha1 :: "nat list \<Rightarrow> sha1_state" where
  "sha1 m =
     foldl (\<lambda>h i. sha1_block h (take 64 (drop (64 * i) (sha1_pad m)))) sha1_init
           [0..<length (sha1_pad m) div 64]"

definition hex_digit :: "nat \<Rightarrow> char" where
  "hex_digit n = ''0123456789abcdef'' ! (n mod 16)"

definition hex_word32 :: "nat \<Rightarrow> string" where
  "hex_word32 w = map (\<lambda>i. hex_digit (w div 16 ^ i)) [7, 6, 5, 4, 3, 2, 1, 0]"

definition sha1_hexdigest :: "nat list \<Rightarrow> string" where
  "sha1_hexdigest m = (case sha1 m of (a, b, c, d, e) \<Rightarrow> concat (map hex_word32 [a, b, c, d, e]))"

text \<open>\<open>s.encode("utf-8", "ignore")\<close> on code points below 256.\<close>

definition utf8_encode :: "string \<Rightarrow> nat list" where
  "utf8_encode s =
     concat (map (\<lambda>c. let n = (of_char c :: nat)
                       in if n < 128 then [n] else [192 + n div 64, 128 + n mod 64]) s)"

section \<open>The site mirror\<close>

subsection \<open>Configuration and types\<close>

definition HTML_CT :: "string list" where
  "HTML_CT = [''text/html'', ''application/xhtml+xml'']"

definition CSS_CT :: "string list" where
  "CSS_CT = [''text/css'']"

datatype crawl_task = CrawlTask (task_url: string)

text \<open>A loaded robots policy is its \<open>can_fetch(useragent, url)\<close>, which may raise.\<close>

type_synonym robot_parser = "string \<Rightarrow> string \<Rightarrow> py_error + bool"

text \<open>The attributes of a \<open>SiteMirror\<close> object. The lock, the HTTP session, the delay
  and the timeout are not state of the model.\<close>

record site_mirror =
  start_url :: string
  base :: parse_result
  out_dir :: pypath
  include_subdomains :: bool
  max_pages :: int
  ignore_robots :: bool
  user_agent :: string
  seen_urls :: "string set"
  saved_urls :: "string set"
  page_count :: int
  rp :: "robot_parser option"
  work_q :: "crawl_task list"

subsection \<open>Utility\<close>

definition normalize_url :: "(string \<Rightarrow> bool) \<Rightarrow> string \<Rightarrow> py_error + string" where
  "normalize_url ipv u =
     (case urldefrag ipv (py_strip u) of Inl e \<Rightarrow> Inl e | Inr (u', _) \<Rightarrow> Inr u')"

definition is_http :: "(string \<Rightarrow> bool) \<Rightarrow> string \<Rightarrow> py_error + bool" where
  "is_http ipv u =
     (case urlparse ipv u [] of
        Inl e \<Rightarrow> Inl e
      | Inr p \<Rightarrow> Inr (scheme p = ''http'' \<or> scheme p = ''https''))"

text \<open>The subdomain branch returns the value of an \<open>and\<close> chain; its truth value is what
  the callers test.\<close>

definition same_domain_parsed :: "site_mirror \<Rightarrow> parse_result \<Rightarrow> bool" where
  "same_domain_parsed m p =
     (if netloc p = netloc (base m) then True
      else if include_subdomains m
      then (case hostname p of
              None \<Rightarrow> False
            | Some h \<Rightarrow>
                (case hostname (base m) of
                   None \<Rightarrow> False
                 | Some bh \<Rightarrow> endswith h (''.'' @ bh)))
      else False)"

definition same_domain :: "(string \<Rightarrow> bool) \<Rightarrow> site_mirror \<Rightarrow> string \<Rightarrow> py_error + bool" where
  "same_domain ipv m u =
     (case urlparse ipv u [] of Inl e \<Rightarrow> Inl e | Inr p \<Rightarrow> Inr (same_domain_parsed m p))"

subsection \<open>Robots\<close>

text \<open>\<open>robots_read url\<close> stands for \<open>rp.set_url(url); rp.read()\<close>: the parser that
  was loaded, or the exception that the request or the decoding raised.\<close>

definition init_robots ::
  "(string \<Rightarrow> bool) \<Rightarrow> (string \<Rightarrow> py_error + robot_parser) \<Rightarrow> site_mirror \<Rightarrow> py_error + site_mirror" where
  "init_robots ipv robots_read m =
     (case urljoin ipv (scheme (base m) @ ''://'' @ netloc (base m)) ''/robots.txt'' of
        Inl e \<Rightarrow> Inl e
      | Inr robots_url \<Rightarrow>
          (case robots_read robots_url of
             Inr parser \<Rightarrow> Inr (m\<lparr>rp := Some parser\<rparr>)
           | Inl _ \<Rightarrow> Inr (m\<lparr>rp := None\<rparr>)))"

definition allowed_by_robots :: "site_mirror \<Rightarrow> string \<Rightarrow> bool" where
  "allowed_by_robots m u =
     (if ignore_robots m \<or> rp m = None then True
      else (case the (rp m) (user_agent m) u of Inr b \<Rightarrow> b | Inl _ \<Rightarrow> True))"

subsection \<open>File path mapping\<close>

definition hash8 :: "string \<Rightarrow> string" where
  "hash8 s = take 8 (sha1_hexdigest (utf8_encode s))"

definition is_html :: "string \<Rightarrow> bool" where
  "is_html content_type = list_ex (\<lambda>ct. startswith content_type ct) HTML_CT"

definition lstrip_slash :: "string \<Rightarrow> string" where
  "lstrip_slash s = dropWhile (\<lambda>c. c = CHR ''/'') s"

definition query_name :: "pypath \<Rightarrow> string \<Rightarrow> string" where
  "query_name local qry =
     (if path_stem local = [] then ''file'' else path_stem local)
     @ ''__q='' @ hash8 qry @ concat (path_suffixes local)"

definition url_to_local_path ::
  "(string \<Rightarrow> bool) \<Rightarrow> site_mirror \<Rightarrow> string \<Rightarrow> string option \<Rightarrow> py_error + pypath" where
  "url_to_local_path ipv m u content_type =
     (case urlparse ipv u [] of
        Inl e \<Rightarrow> Inl e
      | Inr p \<Rightarrow>
          (let html = (case content_type of None \<Rightarrow> False | Some ct \<Rightarrow> ct \<noteq> [] \<and> is_html ct);
               local0 =
                 (if path p = [] \<or> endswith (path p) ''/''
                  then path_div (path_div (path_div (out_dir m) (netloc p)) (lstrip_slash (path p)))
                         (if html then ''index.html'' else ''index'')
                  else path_div (path_div (out_dir m) (netloc p)) (lstrip_slash (path p)));
               local1 =
                 (if query p \<noteq> []
                  then path_div (path_parent local0) (query_name local0 (query p))
                  else local0)
           in if path_suffix local1 = [] \<and> html then with_suffix local1 ''.html''
              else Inr local1))"

text \<open>The constructor, up to the creation of the output directory (which \<open>crawl\<close>
  below performs on the modelled filesystem).\<close>

definition site_mirror_init ::
  "(string \<Rightarrow> bool) \<Rightarrow> (string \<Rightarrow> py_error + robot_parser) \<Rightarrow> string \<Rightarrow> pypath \<Rightarrow> bool \<Rightarrow> int
     \<Rightarrow> bool \<Rightarrow> string \<Rightarrow> py_error + site_mirror" where
  "site_mirror_init ipv robots_read start out incl maxp ignore ua =
     (case normalize_url ipv start of
        Inl e \<Rightarrow> Inl e
      | Inr su \<Rightarrow>
          (case urlparse ipv su [] of
             Inl e \<Rightarrow> Inl e
           | Inr b \<Rightarrow>
               if scheme b \<noteq> ''http'' \<and> scheme b \<noteq> ''https'' then Inl ValueError
               else
                 (let m = \<lparr>start_url = su, base = b, out_dir = out, include_subdomains = incl,
                            max_pages = maxp, ignore_robots = ignore, user_agent = ua,
                            seen_urls = {}, saved_urls = {}, page_count = 0, rp = None,
                            work_q = []\<rparr>
                  in if \<not> ignore then init_robots ipv robots_read m else Inr m)))"

subsection \<open>Parsing helpers\<close>

text \<open>An element as BeautifulSoup's \<open>html.parser\<close> delivers it: the tag name, the
  string-valued attributes, and the multi-valued \<open>rel\<close> attribute.\<close>

record element =
  el_tag :: string
  el_attrs :: "(string \<times> string) list"
  el_rel :: "string list option"

definition ASSET_ATTRS :: "(string \<times> string) list" where
  "ASSET_ATTRS = [(''img'', ''src''), (''img'', ''srcset''), (''script'', ''src''),
     (''link'', ''href''), (''source'', ''src''), (''video'', ''src''), (''audio'', ''src''),
     (''track'', ''src''), (''iframe'', ''src''), (''embed'', ''src''), (''object'', ''data'')]"

definition LINK_RELS_AS_ASSETS :: "string list" where
  "LINK_RELS_AS_ASSETS = [''stylesheet'', ''icon'', ''shortcut icon'', ''apple-touch-icon'',
     ''preload'', ''prefetch'']"

definition asset_exts :: "string list" where
  "asset_exts = [''.css'', ''.ico'', ''.png'', ''.svg'', ''.webmanifest'']"

text \<open>Python iterates a set in an order of its own. A set of URLs is kept here as a list
  without duplicates, in the order of discovery.\<close>

definition add_url :: "string \<Rightarrow> string list \<Rightarrow> string list" where
  "add_url u us = (if u \<in> set us then us else us @ [u])"

definition bind_err :: "'e + 'a \<Rightarrow> ('a \<Rightarrow> 'e + 'b) \<Rightarrow> 'e + 'b" where
  "bind_err x f = (case x of Inl e \<Rightarrow> Inl e | Inr v \<Rightarrow> f v)"

text \<open>A \<open>for\<close> loop whose body may raise: the first exception ends the loop.\<close>

fun fold_err :: "('a \<Rightarrow> 's \<Rightarrow> 'e + 's) \<Rightarrow> 'a list \<Rightarrow> 's \<Rightarrow> 'e + 's" where
  "fold_err f [] s = Inr s"
| "fold_err f (x # xs) s = (case f x s of Inl e \<Rightarrow> Inl e | Inr s' \<Rightarrow> fold_err f xs s')"

text \<open>One \<open><a href>\<close>: join, normalize, keep when HTTP(S) and in scope.\<close>

definition page_link ::
  "(string \<Rightarrow> bool) \<Rightarrow> site_mirror \<Rightarrow> string \<Rightarrow> string \<Rightarrow> string list \<Rightarrow> py_error + string list" where
  "page_link ipv m base_url href pages =
     bind_err (urljoin ipv base_url href) (\<lambda>u0.
     bind_err (normalize_url ipv u0) (\<lambda>u.
     bind_err (is_http ipv u) (\<lambda>http.
       if \<not> http then Inr pages
       else bind_err (same_domain ipv m u) (\<lambda>same.
              Inr (if same then add_url u pages else pages)))))"

definition page_element ::
  "(string \<Rightarrow> bool) \<Rightarrow> site_mirror \<Rightarrow> string \<Rightarrow> element \<Rightarrow> string list \<Rightarrow> py_error + string list" where
  "page_element ipv m base_url a pages =
     (if el_tag a = ''a'' \<and> map_of (el_attrs a) ''href'' \<noteq> None
      then (case map_of (el_attrs a) ''href'' of
              None \<Rightarrow> Inr pages
            | Some href \<Rightarrow> if href = [] then Inr pages else page_link ipv m base_url href pages)
      else Inr pages)"

definition srcset_candidates :: "string \<Rightarrow> string list" where
  "srcset_candidates val =
     filter (\<lambda>u. u \<noteq> [])
       (map (\<lambda>part. takeWhile (\<lambda>c. c \<noteq> CHR '' '') (py_strip part)) (py_split CHR '','' val))"

definition skip_link :: "element \<Rightarrow> string \<Rightarrow> bool" where
  "skip_link el candidate =
     (let rel = py_lower (py_join '' '' (case el_rel el of None \<Rightarrow> [] | Some r \<Rightarrow> r))
      in rel \<noteq> [] \<and> rel \<notin> set LINK_RELS_AS_ASSETS
         \<and> \<not> list_ex (\<lambda>ext. endswith (py_lower candidate) ext) asset_exts)"

definition asset_candidate ::
  "(string \<Rightarrow> bool) \<Rightarrow> site_mirror \<Rightarrow> string \<Rightarrow> string \<Rightarrow> element \<Rightarrow> string \<Rightarrow> string list
     \<Rightarrow> py_error + string list" where
  "asset_candidate ipv m base_url tg el candidate assets =
     bind_err (urljoin ipv base_url candidate) (\<lambda>u0.
     bind_err (normalize_url ipv u0) (\<lambda>u.
     bind_err (is_http ipv u) (\<lambda>http.
       if \<not> http then Inr assets
       else if tg = ''link'' \<and> skip_link el candidate then Inr assets
       else bind_err (same_domain ipv m u) (\<lambda>same.
              Inr (if same then add_url u assets else assets)))))"

definition asset_element ::
  "(string \<Rightarrow> bool) \<Rightarrow> site_mirror \<Rightarrow> string \<Rightarrow> string \<times> string \<Rightarrow> element \<Rightarrow> string list
     \<Rightarrow> py_error + string list" where
  "asset_element ipv m base_url ta el assets =
     (if el_tag el = fst ta
      then (case map_of (el_attrs el) (snd ta) of
              None \<Rightarrow> Inr assets
            | Some val \<Rightarrow>
                if val = [] then Inr assets
                else fold_err (asset_candidate ipv m base_url (fst ta) el)
                       (if snd ta = ''srcset'' then srcset_candidates val else [val]) assets)
      else Inr assets)"

text \<open>\<open>extract_links_and_assets(base_url, html)\<close>; \<open>bs html\<close> is the list of elements of
  \<open>BeautifulSoup(html, "html.parser")\<close> in document order.\<close>

definition extract_links_and_assets ::
  "(string \<Rightarrow> bool) \<Rightarrow> (string \<Rightarrow> element list) \<Rightarrow> site_mirror \<Rightarrow> string \<Rightarrow> string
     \<Rightarrow> py_error + (string list \<times> string list)" where
  "extract_links_and_assets ipv bs m base_url html =
     bind_err (fold_err (page_element ipv m base_url) (bs html) []) (\<lambda>pages.
     bind_err (fold_err (\<lambda>ta. fold_err (asset_element ipv m base_url ta) (bs html)) ASSET_ATTRS [])
       (\<lambda>assets.
       Inr (pages, assets)))"

text \<open>\<open>extract_css_urls\<close>; \<open>css_refs css_text\<close> is the list of the second groups of the
  matches of \<open>CSS_URL_RE\<close> in the text.\<close>

definition css_ref ::
  "(string \<Rightarrow> bool) \<Rightarrow> site_mirror \<Rightarrow> string \<Rightarrow> string \<Rightarrow> string list \<Rightarrow> py_error + string list" where
  "css_ref ipv m base_url ref urls =
     bind_err (urljoin ipv base_url (py_strip ref)) (\<lambda>u0.
     bind_err (normalize_url ipv u0) (\<lambda>u.
     bind_err (is_http ipv u) (\<lambda>http.
       if \<not> http then Inr urls
       else bind_err (same_domain ipv m u) (\<lambda>same.
              Inr (if same then add_url u urls else urls)))))"

definition extract_css_urls ::
  "(string \<Rightarrow> bool) \<Rightarrow> (string \<Rightarrow> string list) \<Rightarrow> site_mirror \<Rightarrow> string \<Rightarrow> string
     \<Rightarrow> py_error + string list" where
  "extract_css_urls ipv css_refs m base_url css_text =
     fold_err (css_ref ipv m base_url) (css_refs css_text) []"

subsection \<open>Networking and saving\<close>

text \<open>A \<open>requests\<close> response: the status, the \<open>Content-Type\<close> header if present, the raw
  bytes, and what reading \<open>resp.text\<close> gives.\<close>

record response =
  status_code :: int
  content_type_header :: "string option"
  content :: string
  resp_text :: "py_error + string"

text \<open>The filesystem, without symbolic links: the directories, and the files with their
  bytes (an association list, one entry a file), both under their resolved paths. A
  component \<open>..\<close> leads to the parent of the directory before it; at the root it stays
  there, and above the working directory it is kept. A path that resolves to nothing but
  such steps is a directory.\<close>

record filesystem =
  fs_dirs :: "pypath set"
  fs_files :: "(pypath \<times> string) list"

definition canon_step :: "bool \<Rightarrow> string list \<Rightarrow> string \<Rightarrow> string list" where
  "canon_step rooted acc c =
     (if c = ''..''
      then (if acc = [] then (if rooted then [] else [''..''])
            else if last acc = ''..'' then acc @ [''..'']
            else butlast acc)
      else acc @ [c])"

definition fs_canon :: "pypath \<Rightarrow> pypath" where
  "fs_canon p = p\<lparr>p_parts := foldl (canon_step (p_root p \<noteq> [])) [] (p_parts p)\<rparr>"

definition is_dir :: "filesystem \<Rightarrow> pypath \<Rightarrow> bool" where
  "is_dir fs p = (list_all (\<lambda>c. c = ''..'') (p_parts (fs_canon p)) \<or> fs_canon p \<in> fs_dirs fs)"

definition is_file :: "filesystem \<Rightarrow> pypath \<Rightarrow> bool" where
  "is_file fs p = (\<not> is_dir fs p \<and> map_of (fs_files fs) (fs_canon p) \<noteq> None)"

text \<open>\<open>p.mkdir(parents=True, exist_ok=True)\<close>: every prefix of the path becomes a
  directory; \<open>OSError\<close> when one of them is a file. The prefixes are visited from the
  top, \<open>done\<close> being the components already visited.\<close>

fun mkdir_from :: "filesystem \<Rightarrow> string \<Rightarrow> string list \<Rightarrow> string list \<Rightarrow> py_error + filesystem" where
  "mkdir_from fs r done [] = Inr fs"
| "mkdir_from fs r done (c # cs) =
     (let p = \<lparr>p_root = r, p_parts = done @ [c]\<rparr>
      in if is_file fs p then Inl OSError
         else mkdir_from (if is_dir fs p then fs else fs\<lparr>fs_dirs := insert (fs_canon p) (fs_dirs fs)\<rparr>)
                r (done @ [c]) cs)"

definition mkdir_parents :: "filesystem \<Rightarrow> pypath \<Rightarrow> py_error + filesystem" where
  "mkdir_parents fs p = mkdir_from fs (p_root p) [] (p_parts p)"

text \<open>\<open>open(p, "wb")\<close> and \<open>write\<close>: \<open>OSError\<close> when the path is a directory or a
  proper prefix of it is none.\<close>

definition write_file :: "filesystem \<Rightarrow> pypath \<Rightarrow> string \<Rightarrow> py_error + filesystem" where
  "write_file fs p bytes =
     (if is_dir fs p
         \<or> \<not> list_all (\<lambda>k. is_dir fs (p\<lparr>p_parts := take k (p_parts p)\<rparr>)) [0..<length (p_parts p)]
      then Inl OSError
      else Inr (fs\<lparr>fs_files := (fs_canon p, bytes) # filter (\<lambda>e. fst e \<noteq> fs_canon p) (fs_files fs)\<rparr>))"

definition response_content_type :: "response \<Rightarrow> string" where
  "response_content_type resp =
     py_lower (py_strip (hd (py_split CHR '';''
        (case content_type_header resp of None \<Rightarrow> [] | Some h \<Rightarrow> h))))"

text \<open>\<open>save_response\<close>: the path written, or \<open>None\<close> when writing failed; an exception
  of the path mapping or of the directory creation is not caught.\<close>

definition save_response ::
  "(string \<Rightarrow> bool) \<Rightarrow> site_mirror \<Rightarrow> filesystem \<Rightarrow> string \<Rightarrow> response
     \<Rightarrow> py_error + (pypath option \<times> filesystem)" where
  "save_response ipv m fs u resp =
     bind_err (url_to_local_path ipv m u (Some (response_content_type resp))) (\<lambda>local_path.
     bind_err (mkdir_parents fs (path_parent local_path)) (\<lambda>fs1.
       (case write_file fs1 local_path (content resp) of
          Inr fs2 \<Rightarrow> Inr (Some local_path, fs2)
        | Inl _ \<Rightarrow> Inr (None, fs1))))"

subsection \<open>Crawl loop\<close>

definition enqueue :: "(string \<Rightarrow> bool) \<Rightarrow> site_mirror \<Rightarrow> string \<Rightarrow> py_error + site_mirror" where
  "enqueue ipv m u0 =
     bind_err (normalize_url ipv u0) (\<lambda>u.
       if u \<in> seen_urls m then Inr m
       else Inr (m\<lparr>seen_urls := insert u (seen_urls m), work_q := work_q m @ [CrawlTask u]\<rparr>))"

text \<open>The locked block that counts a page.\<close>

definition count_page :: "site_mirror \<Rightarrow> site_mirror" where
  "count_page m =
     (if max_pages m \<noteq> 0 \<and> page_count m \<ge> max_pages m then m
      else m\<lparr>page_count := page_count m + 1\<rparr>)"

definition enqueue_page :: "(string \<Rightarrow> bool) \<Rightarrow> string \<Rightarrow> site_mirror \<Rightarrow> py_error + site_mirror" where
  "enqueue_page ipv p m =
     (if max_pages m \<noteq> 0 \<and> page_count m \<ge> max_pages m \<and> p \<notin> seen_urls m then Inr m
      else bind_err (same_domain ipv m p) (\<lambda>same. if same then enqueue ipv m p else Inr m))"

definition enqueue_asset :: "(string \<Rightarrow> bool) \<Rightarrow> string \<Rightarrow> site_mirror \<Rightarrow> py_error + site_mirror" where
  "enqueue_asset ipv a m =
     bind_err (same_domain ipv m a) (\<lambda>same. if same then enqueue ipv m a else Inr m)"

text \<open>What the crawler's surroundings answer: the validation of bracketed hosts, the
  HTTP client (\<open>None\<close> for a \<open>RequestException\<close>), the HTML parser and the matches of
  the CSS pattern.\<close>

record env =
  env_ipv :: "string \<Rightarrow> bool"
  env_get :: "string \<Rightarrow> response option"
  env_soup :: "string \<Rightarrow> element list"
  env_css_refs :: "string \<Rightarrow> string list"

text \<open>The part of the worker's loop body after a response was saved.\<close>

definition process_saved :: "env \<Rightarrow> site_mirror \<Rightarrow> string \<Rightarrow> response \<Rightarrow> py_error + site_mirror" where
  "process_saved ev m0 u resp =
     (let content_type = response_content_type resp;
          m1 = m0\<lparr>saved_urls := insert u (saved_urls m0)\<rparr>
      in if is_html content_type
         then (let m2 = count_page m1;
                   html_text = (case resp_text resp of Inr t \<Rightarrow> t | Inl _ \<Rightarrow> [])
               in if html_text \<noteq> []
                  then bind_err (extract_links_and_assets (env_ipv ev) (env_soup ev) m2 u html_text)
                         (\<lambda>(pages, assets).
                            bind_err (fold_err (enqueue_page (env_ipv ev)) pages m2)
                              (fold_err (enqueue_asset (env_ipv ev)) assets))
                  else Inr m2)
         else if list_ex (\<lambda>ct. startswith content_type ct) CSS_CT
         then (let css_text = (case resp_text resp of Inr t \<Rightarrow> t | Inl _ \<Rightarrow> [])
               in if css_text \<noteq> []
                  then bind_err (extract_css_urls (env_ipv ev) (env_css_refs ev) m1 u css_text)
                         (\<lambda>urls. fold_err (\<lambda>x m. enqueue (env_ipv ev) m x) urls m1)
                  else Inr m1)
         else Inr m1)"

text \<open>The body of the worker's loop for one task that was taken from the queue. \<open>Inl\<close> is
  an exception that nothing catches: it ends the worker.\<close>

definition worker_task ::
  "env \<Rightarrow> site_mirror \<times> filesystem \<Rightarrow> string \<Rightarrow> py_error + (site_mirror \<times> filesystem)" where
  "worker_task ev st u =
     (case st of (m, fs) \<Rightarrow>
        if \<not> allowed_by_robots m u then Inr (m, fs)
        else (case env_get ev u of
                None \<Rightarrow> Inr (m, fs)
              | Some resp \<Rightarrow>
                  if status_code resp \<noteq> 200 then Inr (m, fs)
                  else bind_err (save_response (env_ipv ev) m fs u resp) (\<lambda>(saved_path, fs1).
                         (case saved_path of
                            None \<Rightarrow> Inr (m, fs1)
                          | Some _ \<Rightarrow> bind_err (process_saved ev m u resp) (\<lambda>m1. Inr (m1, fs1))))))"

text \<open>One worker draining the queue. The loop ends when the queue is empty; \<open>None\<close> is
  a loop still running when the fuel is used up.\<close>

fun worker ::
  "env \<Rightarrow> nat \<Rightarrow> site_mirror \<times> filesystem \<Rightarrow> (py_error + (site_mirror \<times> filesystem)) option" where
  "worker ev fuel (m, fs) =
     (case work_q m of
        [] \<Rightarrow> Some (Inr (m, fs))
      | t # ts \<Rightarrow>
          (case fuel of
             0 \<Rightarrow> None
           | Suc n \<Rightarrow>
               (case worker_task ev (m\<lparr>work_q := ts\<rparr>, fs) (task_url t) of
                  Inl e \<Rightarrow> Some (Inl e)
                | Inr st \<Rightarrow> worker ev n st)))"

text \<open>Constructor, then \<open>run\<close> with a single worker.\<close>

definition crawl ::
  "env \<Rightarrow> (string \<Rightarrow> py_error + robot_parser) \<Rightarrow> nat \<Rightarrow> filesystem \<Rightarrow> string \<Rightarrow> pypath \<Rightarrow> bool \<Rightarrow> int
     \<Rightarrow> bool \<Rightarrow> string \<Rightarrow> (py_error + (site_mirror \<times> filesystem)) option" where
  "crawl ev robots_read fuel fs start out incl maxp ignore ua =
     (case site_mirror_init (env_ipv ev) robots_read start out incl maxp ignore ua of
        Inl e \<Rightarrow> Some (Inl e)
      | Inr m \<Rightarrow>
          (case mkdir_parents fs out of
             Inl e \<Rightarrow> Some (Inl e)
           | Inr fs1 \<Rightarrow>
               (case enqueue (env_ipv ev) m (start_url m) of
                  Inl e \<Rightarrow> Some (Inl e)
                | Inr m1 \<Rightarrow> worker ev fuel (m1, fs1))))"

subsection \<open>The frontier under interleaving\<close>

text \<open>
  With several workers, \<open>enqueue\<close> is two steps of a thread: the locked test-and-insert
  on the seen-set, which leaves the thread holding the URL it is about to put, and the
  put. A worker's \<open>q.get\<close> is a third step. The log of the puts and the log of the
  tasks handed to workers are kept beside the mirror.
\<close>

datatype frontier_event =
  Check nat string
| Put nat
| Get

record frontier =
  fr_mirror :: site_mirror
  fr_holding :: "nat \<rightharpoonup> string"
  fr_puts :: "string list"
  fr_taken :: "string list"

fun frontier_step :: "(string \<Rightarrow> bool) \<Rightarrow> frontier \<Rightarrow> frontier_event \<Rightarrow> frontier" where
  "frontier_step ipv f (Check t u0) =
     (if fr_holding f t \<noteq> None then f
      else (case normalize_url ipv u0 of
              Inl _ \<Rightarrow> f
            | Inr u \<Rightarrow>
                if u \<in> seen_urls (fr_mirror f) then f
                else f\<lparr>fr_mirror := (fr_mirror f)\<lparr>seen_urls := insert u (seen_urls (fr_mirror f))\<rparr>,
                       fr_holding := (fr_holding f)(t \<mapsto> u)\<rparr>))"
| "frontier_step ipv f (Put t) =
     (case fr_holding f t of
        None \<Rightarrow> f
      | Some u \<Rightarrow>
          f\<lparr>fr_mirror := (fr_mirror f)\<lparr>work_q := work_q (fr_mirror f) @ [CrawlTask u]\<rparr>,
            fr_holding := (fr_holding f)(t := None),
            fr_puts := fr_puts f @ [u]\<rparr>)"
| "frontier_step ipv f Get =
     (case work_q (fr_mirror f) of
        [] \<Rightarrow> f
      | t # ts \<Rightarrow>
          f\<lparr>fr_mirror := (fr_mirror f)\<lparr>work_q := ts\<rparr>, fr_taken := fr_taken f @ [task_url t]\<rparr>)"

definition frontier_run :: "(string \<Rightarrow> bool) \<Rightarrow> frontier \<Rightarrow> frontier_event list \<Rightarrow> frontier" where
  "frontier_run ipv f es = foldl (frontier_step ipv) f es"

definition frontier_init :: "site_mirror \<Rightarrow> frontier" where
  "frontier_init m = \<lparr>fr_mirror = m, fr_holding = Map.empty, fr_puts = [], fr_taken = []\<rparr>"

subsection \<open>The worker pool under interleaving\<close>

text \<open>
  The workers of \<open>run\<close> as threads that take turns. A step of a thread is what it does
  up to and including its next access to the state it shares with the others: a block
  under the lock, a queue operation, or the saving of a response. Between two such
  accesses a thread only computes on values of its own. The states of a thread are the
  places of \<open>worker\<close> where it can be waiting for its turn:
  \<^item> \<open>Waiting\<close>: in \<open>q.get\<close>; a worker that gave up waiting is one that gets no turn;
  \<^item> \<open>Got u\<close>: a task was taken; robots check, request and saving are ahead;
  \<^item> \<open>SavedResp u resp\<close>: the response was saved; the locked \<open>saved_urls.add\<close> is next;
  \<^item> \<open>Branching u resp\<close>: at the test of the content type; for HTML the locked
    counting block is next;
  \<^item> \<open>Extract u resp\<close>: counted; reading the text and extracting are next;
  \<^item> \<open>Jobs js\<close>: in the loops over what was extracted, \<open>js\<close> still to be enqueued;
  \<^item> \<open>CheckSeen v js\<close>: in \<open>enqueue\<close> with the normalized \<open>v\<close>, before the locked
    test-and-insert;
  \<^item> \<open>Putting v js\<close>: in \<open>enqueue\<close> before \<open>q.put\<close>;
  \<^item> \<open>Dead e\<close>: ended by an exception that nothing caught.
\<close>

datatype job = PageJob string | AssetJob string | CssJob string

datatype thread =
    Waiting
  | Got string
  | SavedResp string response
  | Branching string response
  | Extract string response
  | Jobs "job list"
  | CheckSeen string "job list"
  | Putting string "job list"
  | Dead py_error

record pool =
  pl_mirror :: site_mirror
  pl_fs :: filesystem
  pl_threads :: "thread list"
  pl_taken :: "string list"

definition start_enqueue :: "(string \<Rightarrow> bool) \<Rightarrow> string \<Rightarrow> job list \<Rightarrow> thread" where
  "start_enqueue ipv u js =
     (case normalize_url ipv u of Inl e \<Rightarrow> Dead e | Inr v \<Rightarrow> CheckSeen v js)"

definition checked_enqueue :: "(string \<Rightarrow> bool) \<Rightarrow> site_mirror \<Rightarrow> string \<Rightarrow> job list \<Rightarrow> thread" where
  "checked_enqueue ipv m u js =
     (case same_domain ipv m u of
        Inl e \<Rightarrow> Dead e
      | Inr same \<Rightarrow> if same then start_enqueue ipv u js else Jobs js)"

fun thread_step ::
  "env \<Rightarrow> site_mirror \<Rightarrow> filesystem \<Rightarrow> string list \<Rightarrow> thread
     \<Rightarrow> site_mirror \<times> filesystem \<times> string list \<times> thread" where
  "thread_step ev m fs taken Waiting =
     (case work_q m of
        [] \<Rightarrow> (m, fs, taken, Waiting)
      | c # cs \<Rightarrow> (m\<lparr>work_q := cs\<rparr>, fs, taken @ [task_url c], Got (task_url c)))"
| "thread_step ev m fs taken (Got u) =
     (if \<not> allowed_by_robots m u then (m, fs, taken, Waiting)
      else (case env_get ev u of
              None \<Rightarrow> (m, fs, taken, Waiting)
            | Some resp \<Rightarrow>
                if status_code resp \<noteq> 200 then (m, fs, taken, Waiting)
                else (case save_response (env_ipv ev) m fs u resp of
                        Inl e \<Rightarrow> (m, fs, taken, Dead e)
                      | Inr (None, fs1) \<Rightarrow> (m, fs1, taken, Waiting)
                      | Inr (Some _, fs1) \<Rightarrow> (m, fs1, taken, SavedResp u resp))))"
| "thread_step ev m fs taken (SavedResp u resp) =
     (m\<lparr>saved_urls := insert u (saved_urls m)\<rparr>, fs, taken, Branching u resp)"
| "thread_step ev m fs taken (Branching u resp) =
     (if is_html (response_content_type resp) then (count_page m, fs, taken, Extract u resp)
      else if list_ex (\<lambda>ct. startswith (response_content_type resp) ct) CSS_CT
      then (let css_text = (case resp_text resp of Inr t \<Rightarrow> t | Inl _ \<Rightarrow> [])
            in if css_text \<noteq> []
               then (case extract_css_urls (env_ipv ev) (env_css_refs ev) m u css_text of
                       Inl e \<Rightarrow> (m, fs, taken, Dead e)
                     | Inr urls \<Rightarrow> (m, fs, taken, Jobs (map CssJob urls)))
               else (m, fs, taken, Waiting))
      else (m, fs, taken, Waiting))"
| "thread_step ev m fs taken (Extract u resp) =
     (let html_text = (case resp_text resp of Inr t \<Rightarrow> t | Inl _ \<Rightarrow> [])
      in if html_text \<noteq> []
         then (case extract_links_and_assets (env_ipv ev) (env_soup ev) m u html_text of
                 Inl e \<Rightarrow> (m, fs, taken, Dead e)
               | Inr (pages, assets) \<Rightarrow>
                   (m, fs, taken, Jobs (map PageJob pages @ map AssetJob assets)))
         else (m, fs, taken, Waiting))"
| "thread_step ev m fs taken (Jobs []) = (m, fs, taken, Waiting)"
| "thread_step ev m fs taken (Jobs (PageJob p # js)) =
     (if max_pages m \<noteq> 0 \<and> page_count m \<ge> max_pages m \<and> p \<notin> seen_urls m
      then (m, fs, taken, Jobs js)
      else (m, fs, taken, checked_enqueue (env_ipv ev) m p js))"
| "thread_step ev m fs taken (Jobs (AssetJob a # js)) =
     (m, fs, taken, checked_enqueue (env_ipv ev) m a js)"
| "thread_step ev m fs taken (Jobs (CssJob u # js)) =
     (m, fs, taken, start_enqueue (env_ipv ev) u js)"
| "thread_step ev m fs taken (CheckSeen v js) =
     (if v \<in> seen_urls m then (m, fs, taken, Jobs js)
      else (m\<lparr>seen_urls := insert v (seen_urls m)\<rparr>, fs, taken, Putting v js))"
| "thread_step ev m fs taken (Putting v js) =
     (m\<lparr>work_q := work_q m @ [CrawlTask v]\<rparr>, fs, taken, Jobs js)"
| "thread_step ev m fs taken (Dead e) = (m, fs, taken, Dead e)"

text \<open>A turn of thread \<open>t\<close>; a schedule is the list of the threads in the order of their
  turns.\<close>

definition pool_step :: "env \<Rightarrow> pool \<Rightarrow> nat \<Rightarrow> pool" where
  "pool_step ev p t =
     (if t < length (pl_threads p)
      then (case thread_step ev (pl_mirror p) (pl_fs p) (pl_taken p) (pl_threads p ! t) of
              (m, fs, taken, th) \<Rightarrow>
                \<lparr>pl_mirror = m, pl_fs = fs, pl_threads = (pl_threads p)[t := th], pl_taken = taken\<rparr>)
      else p)"

definition pool_run :: "env \<Rightarrow> pool \<Rightarrow> nat list \<Rightarrow> pool" where
  "pool_run ev p sched = foldl (pool_step ev) p sched"

text \<open>\<open>run\<close> up to the start of the workers: the start URL is enqueued, then
  \<open>max(1, workers)\<close> threads wait for tasks.\<close>

definition pool_init :: "site_mirror \<Rightarrow> filesystem \<Rightarrow> nat \<Rightarrow> pool" where
  "pool_init m fs workers =
     \<lparr>pl_mirror = m, pl_fs = fs, pl_threads = replicate (max 1 workers) Waiting, pl_taken = []\<rparr>"

definition pool_start ::
  "(string \<Rightarrow> bool) \<Rightarrow> (string \<Rightarrow> py_error + robot_parser) \<Rightarrow> filesystem \<Rightarrow> string \<Rightarrow> pypath \<Rightarrow> bool
     \<Rightarrow> int \<Rightarrow> bool \<Rightarrow> string \<Rightarrow> nat \<Rightarrow> py_error + pool" where
  "pool_start ipv robots_read fs start out incl maxp ignore ua workers =
     bind_err (site_mirror_init ipv robots_read start out incl maxp ignore ua) (\<lambda>m.
     bind_err (mkdir_parents fs out) (\<lambda>fs1.
     bind_err (enqueue ipv m (start_url m)) (\<lambda>m1.
       Inr (pool_init m1 fs1 workers))))"

section \<open>Auxiliary notions and example data\<close>

text \<open>The attributes of a mirror that the crawl never assigns after construction.\<close>

definition same_config :: "site_mirror \<Rightarrow> site_mirror \<Rightarrow> bool" where
  "same_config m m' =
     (start_url m' = start_url m \<and> base m' = base m \<and> out_dir m' = out_dir m \<and>
      include_subdomains m' = include_subdomains m \<and> max_pages m' = max_pages m \<and>
      ignore_robots m' = ignore_robots m \<and> user_agent m' = user_agent m \<and> rp m' = rp m)"

text \<open>A validator for the examples, none of which has a bracketed host.\<close>

definition any_host :: "string \<Rightarrow> bool" where
  "any_host h = True"

text \<open>The mirror of \<open>https://ex.com/\<close> into \<open>out\<close>, robots ignored.\<close>

definition out_A :: pypath where
  "out_A = \<lparr>p_root = [], p_parts = [''out'']\<rparr>"

definition base_A :: parse_result where
  "base_A = \<lparr>scheme = ''https'', netloc = ''ex.com'', path = ''/'', params = [], query = [],
              fragment = []\<rparr>"

definition mirror_A :: "int \<Rightarrow> bool \<Rightarrow> site_mirror" where
  "mirror_A maxp ignore =
     \<lparr>start_url = ''https://ex.com/'', base = base_A, out_dir = out_A, include_subdomains = False,
      max_pages = maxp, ignore_robots = ignore, user_agent = ''SiteMirrorBot/1.0'',
      seen_urls = {}, saved_urls = {}, page_count = 0, rp = None, work_q = []\<rparr>"

text \<open>A robots file that cannot be read, and a policy whose evaluation raises.\<close>

definition robots_down :: "string \<Rightarrow> py_error + robot_parser" where
  "robots_down u = Inl OSError"

definition policy_raises :: robot_parser where
  "policy_raises ua u = Inl ValueError"

text \<open>The site of scenario A: the start page links \<open>/about\<close> and shows \<open>/logo.png\<close>;
  \<open>about\<close> is what the server answers for \<open>/about\<close>.\<close>

definition page_A :: string where
  "page_A = ''<a href=/about>About</a><img src=/logo.png>''"

definition about_html :: "response option" where
  "about_html = Some \<lparr>status_code = 200, content_type_header = Some ''text/html'',
                       content = ''<p>About</p>'', resp_text = Inr ''<p>About</p>''\<rparr>"

definition about_missing :: "response option" where
  "about_missing = Some \<lparr>status_code = 404, content_type_header = Some ''text/html'',
                          content = ''Not found'', resp_text = Inr ''Not found''\<rparr>"

definition web_A :: "response option \<Rightarrow> string \<Rightarrow> response option" where
  "web_A about u =
     (if u = ''https://ex.com/''
      then Some \<lparr>status_code = 200, content_type_header = Some ''text/html; charset=utf-8'',
                 content = page_A, resp_text = Inr page_A\<rparr>
      else if u = ''https://ex.com/logo.png''
      then Some \<lparr>status_code = 200, content_type_header = Some ''image/png'',
                 content = ''PNG'', resp_text = Inr ''PNG''\<rparr>
      else if u = ''https://ex.com/about'' then about
      else None)"

definition soup_A :: "string \<Rightarrow> element list" where
  "soup_A html =
     (if html = page_A
      then [\<lparr>el_tag = ''a'', el_attrs = [(''href'', ''/about'')], el_rel = None\<rparr>,
            \<lparr>el_tag = ''img'', el_attrs = [(''src'', ''/logo.png'')], el_rel = None\<rparr>]
      else if html = ''<p>About</p>'' then [\<lparr>el_tag = ''p'', el_attrs = [], el_rel = None\<rparr>]
      else [])"

definition no_css_refs :: "string \<Rightarrow> string list" where
  "no_css_refs css = []"

definition env_A :: "response option \<Rightarrow> env" where
  "env_A about =
     \<lparr>env_ipv = any_host, env_get = web_A about, env_soup = soup_A, env_css_refs = no_css_refs\<rparr>"

definition empty_fs :: filesystem where
  "empty_fs = \<lparr>fs_dirs = {}, fs_files = []\<rparr>"

text \<open>What holds of the frontier in every state: the put log has no duplicates and is
  the tasks taken followed by the tasks waiting; the seen-set is the put log together
  with the URLs that threads hold; a held URL is not in the put log and is held by one
  thread only.\<close>

definition frontier_inv :: "frontier \<Rightarrow> bool" where
  "frontier_inv f =
     (distinct (fr_puts f) \<and>
      fr_puts f = fr_taken f @ map task_url (work_q (fr_mirror f)) \<and>
      seen_urls (fr_mirror f) = set (fr_puts f) \<union> ran (fr_holding f) \<and>
      (\<forall>t u. fr_holding f t = Some u \<longrightarrow> u \<notin> set (fr_puts f)) \<and>
      (\<forall>t t' u. fr_holding f t = Some u \<and> fr_holding f t' = Some u \<longrightarrow> t = t'))"

text \<open>Two threads meet the same page under three spellings; a worker takes tasks in
  between.\<close>

definition events_A :: "frontier_event list" where
  "events_A = [Check 0 ''https://ex.com/a#top'', Check 1 ''https://ex.com/a'', Put 0, Put 1, Get,
               Check 1 '' https://ex.com/a#end'', Put 1, Get]"

text \<open>What a thread in the middle of a task holds: a response with status 200 that the
  client gave for its URL, recorded as saved once the thread is past that step.\<close>

definition thread_ok :: "env \<Rightarrow> site_mirror \<Rightarrow> thread \<Rightarrow> bool" where
  "thread_ok ev m th =
     (case th of
        SavedResp u resp \<Rightarrow> env_get ev u = Some resp \<and> status_code resp = 200
      | Branching u resp \<Rightarrow> env_get ev u = Some resp \<and> status_code resp = 200 \<and> u \<in> saved_urls m
      | Extract u resp \<Rightarrow> env_get ev u = Some resp \<and> status_code resp = 200 \<and> u \<in> saved_urls m
      | _ \<Rightarrow> True)"

definition pool_ok :: "env \<Rightarrow> pool \<Rightarrow> bool" where
  "pool_ok ev p = (\<forall>th \<in> set (pl_threads p). thread_ok ev (pl_mirror p) th)"

text \<open>What is looked at in the examples.\<close>

definition pool_view ::
  "pool \<Rightarrow> string set \<times> string set \<times> int \<times> crawl_task list \<times> thread list \<times> string list \<times> (pypath \<times> string) list" where
  "pool_view p =
     (seen_urls (pl_mirror p), saved_urls (pl_mirror p), page_count (pl_mirror p), work_q (pl_mirror p),
      pl_threads p, pl_taken p, fs_files (pl_fs p))"

text \<open>The events of threads that meet no new URL: puts and gets only.\<close>

fun no_check :: "frontier_event \<Rightarrow> bool" where
  "no_check (Check t u) = False"
| "no_check (Put t) = True"
| "no_check Get = True"

text \<open>A site whose start page links \<open>/a\<close> and \<open>/b\<close>; both are pages that hold a link
  with a bracket that is never closed, which \<open>urljoin\<close> refuses.\<close>

definition page_B :: string where
  "page_B = ''<a href=/a>a</a><a href=/b>b</a>''"

definition page_B_bad :: string where
  "page_B_bad = ''<a href=http://[>x</a>''"

definition web_B :: "string \<Rightarrow> response option" where
  "web_B u =
     (if u = ''https://ex.com/''
      then Some \<lparr>status_code = 200, content_type_header = Some ''text/html'',
                 content = page_B, resp_text = Inr page_B\<rparr>
      else if u = ''https://ex.com/a'' \<or> u = ''https://ex.com/b''
      then Some \<lparr>status_code = 200, content_type_header = Some ''text/html'',
                 content = page_B_bad, resp_text = Inr page_B_bad\<rparr>
      else None)"

definition soup_B :: "string \<Rightarrow> element list" where
  "soup_B html =
     (if html = page_B
      then [\<lparr>el_tag = ''a'', el_attrs = [(''href'', ''/a'')], el_rel = None\<rparr>,
            \<lparr>el_tag = ''a'', el_attrs = [(''href'', ''/b'')], el_rel = None\<rparr>]
      else if html = page_B_bad
      then [\<lparr>el_tag = ''a'', el_attrs = [(''href'', ''http://['')], el_rel = None\<rparr>]
      else [])"

definition env_B :: env where
  "env_B = \<lparr>env_ipv = any_host, env_get = web_B, env_soup = soup_B, env_css_refs = no_css_refs\<rparr>"

text \<open>The pool of one worker on that site, as \<open>run\<close> starts it, and seventeen turns of
  the worker.\<close>

definition pool_B :: pool where
  "pool_B =
     pool_init ((mirror_A 0 True)\<lparr>seen_urls := {''https://ex.com/''},
                                  work_q := [CrawlTask ''https://ex.com/'']\<rparr>)
       \<lparr>fs_dirs = {out_A}, fs_files = []\<rparr> 1"

definition sched_B :: "nat list" where
  "sched_B = replicate 17 0"

section \<open>Properties\<close>

subsection \<open>Evaluation and loops\<close>

lemmas url_defs = normalize_url_def urldefrag_def urlparse_def urlsplit_def urlunparse_def urlunsplit_def
  py_strip_def py_isspace_def lstrip_chars_def strip_chars_def c0_control_or_space_def remove_unsafe_def
  unsafe_url_byte_def split_scheme_def ascii_alpha_def scheme_chars_def py_lower_def py_lower_char_def
  split1_def splitnetloc_def netloc_delim_def uses_params_def uses_netloc_def splitparams_def
  partition_str_def rpartition_str_def

lemma bind_err_Inr:
  "bind_err x f = Inr y \<longleftrightarrow> (\<exists>v. x = Inr v \<and> f v = Inr y)"
  by (cases x) (simp_all add: bind_err_def)

lemma fold_err_invariant:
  assumes "fold_err f xs s = Inr s'" and "P s"
    and "\<And>x a b. f x a = Inr b \<Longrightarrow> P a \<Longrightarrow> P b"
  shows "P s'"
  using assms(1,2)
proof (induction xs arbitrary: s)
  case Nil
  then show ?case by simp
next
  case (Cons x xs)
  then show ?case
    by (cases "f x s") (auto intro: assms(3))
qed

lemma normalize_start_A: "normalize_url ipv ''https://ex.com/'' = Inr ''https://ex.com/''"
  by (simp add: url_defs)

lemma urlparse_start_A: "urlparse ipv ''https://ex.com/'' [] = Inr base_A"
  by (simp add: url_defs base_A_def)

lemma init_A_ignoring:
  "site_mirror_init ipv rr ''https://ex.com/'' out_A False maxp True ''SiteMirrorBot/1.0''
     = Inr (mirror_A maxp True)"
  by (simp add: site_mirror_init_def normalize_start_A urlparse_start_A mirror_A_def base_A_def)

lemma same_config_refl: "same_config m m"
  by (simp add: same_config_def)

lemma same_config_trans: "same_config a b \<Longrightarrow> same_config b c \<Longrightarrow> same_config a c"
  by (simp add: same_config_def)

lemma enqueue_keeps:
  assumes "enqueue ipv m u = Inr m'"
  shows "same_config m m'" and "page_count m' = page_count m" and "saved_urls m' = saved_urls m"
  using assms by (auto simp: enqueue_def bind_err_Inr same_config_def split: if_splits)

lemma count_page_keeps: "same_config m (count_page m)"
  by (simp add: count_page_def same_config_def)

lemma enqueue_page_keeps:
  assumes "enqueue_page ipv p m = Inr m'"
  shows "same_config m m'" and "page_count m' = page_count m"
  using assms enqueue_keeps[of ipv m p m']
  by (auto simp: enqueue_page_def bind_err_Inr same_config_refl split: if_splits)

lemma enqueue_asset_keeps:
  assumes "enqueue_asset ipv a m = Inr m'"
  shows "same_config m m'" and "page_count m' = page_count m"
  using assms enqueue_keeps[of ipv m a m']
  by (auto simp: enqueue_asset_def bind_err_Inr same_config_refl split: if_splits)

lemma fold_enqueue_page_keeps:
  assumes "fold_err (enqueue_page ipv) ps m = Inr m'"
  shows "same_config m m' \<and> page_count m' = page_count m"
  using fold_err_invariant[where P = "\<lambda>x. same_config m x \<and> page_count x = page_count m", OF assms]
  by (metis enqueue_page_keeps same_config_refl same_config_trans)

lemma fold_enqueue_asset_keeps:
  assumes "fold_err (enqueue_asset ipv) ps m = Inr m'"
  shows "same_config m m' \<and> page_count m' = page_count m"
  using fold_err_invariant[where P = "\<lambda>x. same_config m x \<and> page_count x = page_count m", OF assms]
  by (metis enqueue_asset_keeps same_config_refl same_config_trans)

lemma fold_enqueue_keeps:
  assumes "fold_err (\<lambda>x m. enqueue ipv m x) us m = Inr m'"
  shows "same_config m m' \<and> page_count m' = page_count m"
  using fold_err_invariant[where P = "\<lambda>x. same_config m x \<and> page_count x = page_count m", OF assms]
  by (metis enqueue_keeps(1,2) same_config_refl same_config_trans)


lemma count_page_count:
  "page_count (count_page m) =
     (if max_pages m \<noteq> 0 \<and> page_count m \<ge> max_pages m then page_count m else page_count m + 1)"
  by (simp add: count_page_def)

lemma count_page_saved: "saved_urls (count_page m) = saved_urls m"
  by (simp add: count_page_def)

lemma process_saved_keeps:
  assumes "process_saved ev m u resp = Inr m'"
  shows "same_config m m'"
    and "page_count m' =
           (if is_html (response_content_type resp) then page_count (count_page m) else page_count m)"
proof -
  let ?m1 = "m\<lparr>saved_urls := insert u (saved_urls m)\<rparr>"
  have c1: "same_config m ?m1" and p1: "page_count ?m1 = page_count m"
    and cp: "page_count (count_page ?m1) = page_count (count_page m)"
    by (simp_all add: same_config_def count_page_def)
  have "same_config m m' \<and> page_count m' =
           (if is_html (response_content_type resp) then page_count (count_page m) else page_count m)"
  proof (cases "is_html (response_content_type resp)")
    case True
    let ?m2 = "count_page ?m1"
    have c2: "same_config m ?m2"
      using c1 count_page_keeps same_config_trans by blast
    show ?thesis
    proof (cases "(case resp_text resp of Inr t \<Rightarrow> t | Inl _ \<Rightarrow> []) = []")
      case True
      with \<open>is_html _\<close> assms have "m' = ?m2"
        by (simp add: process_saved_def Let_def)
      with c2 cp \<open>is_html _\<close> show ?thesis by simp
    next
      case False
      with \<open>is_html _\<close> assms obtain pages assets m3 where
        f1: "fold_err (enqueue_page (env_ipv ev)) pages ?m2 = Inr m3" and
        f2: "fold_err (enqueue_asset (env_ipv ev)) assets m3 = Inr m'"
        by (auto simp: process_saved_def Let_def bind_err_Inr)
      from fold_enqueue_page_keeps[OF f1] fold_enqueue_asset_keeps[OF f2] c2 cp \<open>is_html _\<close>
      show ?thesis
        by (metis same_config_trans)
    qed
  next
    case nh: False
    show ?thesis
    proof (cases "list_ex (\<lambda>ct. startswith (response_content_type resp) ct) CSS_CT
                  \<and> (case resp_text resp of Inr t \<Rightarrow> t | Inl _ \<Rightarrow> []) \<noteq> []")
      case True
      with nh assms obtain urls where
        f: "fold_err (\<lambda>x m. enqueue (env_ipv ev) m x) urls ?m1 = Inr m'"
        by (auto simp: process_saved_def Let_def bind_err_Inr)
      from fold_enqueue_keeps[OF f] c1 p1 nh show ?thesis
        by (metis same_config_trans)
    next
      case False
      with nh assms have "m' = ?m1"
        by (auto simp: process_saved_def Let_def split: if_splits)
      with c1 p1 nh show ?thesis by simp
    qed
  qed
  then show "same_config m m'"
    and "page_count m' =
           (if is_html (response_content_type resp) then page_count (count_page m) else page_count m)"
    by simp_all
qed

text \<open>What one task does to the page counter.\<close>

lemma worker_task_keeps:
  assumes "worker_task ev (m, fs) u = Inr (m', fs')"
  shows "same_config m m'"
    and "page_count m' = page_count m \<or>
         (\<exists>resp. env_get ev u = Some resp \<and> status_code resp = 200 \<and>
                 is_html (response_content_type resp) \<and>
                 page_count m' = page_count (count_page m))"
proof -
  have "same_config m m' \<and> (page_count m' = page_count m \<or>
         (\<exists>resp. env_get ev u = Some resp \<and> status_code resp = 200 \<and>
                 is_html (response_content_type resp) \<and>
                 page_count m' = page_count (count_page m)))"
  proof (cases "m' = m")
    case True
    then show ?thesis by (simp add: same_config_refl)
  next
    case False
    with assms obtain resp where r: "env_get ev u = Some resp" "status_code resp = 200"
      and p: "process_saved ev m u resp = Inr m'"
      by (auto simp: worker_task_def bind_err_Inr split: if_splits option.splits)
    from process_saved_keeps[OF p] r show ?thesis
      by (cases "is_html (response_content_type resp)") auto
  qed
  then show "same_config m m'"
    and "page_count m' = page_count m \<or>
         (\<exists>resp. env_get ev u = Some resp \<and> status_code resp = 200 \<and>
                 is_html (response_content_type resp) \<and>
                 page_count m' = page_count (count_page m))"
    by simp_all
qed

lemma init_robots_down:
  assumes "\<forall>x. \<exists>e. robots_read x = Inl e" and "init_robots ipv robots_read m = Inr m'"
  shows "m' = m\<lparr>rp := None\<rparr>"
proof -
  from assms(2) obtain robots_url where
    r: "(case robots_read robots_url of Inr parser \<Rightarrow> Inr (m\<lparr>rp := Some parser\<rparr>)
         | Inl _ \<Rightarrow> Inr (m\<lparr>rp := None\<rparr>)) = (Inr m' :: py_error + site_mirror)"
    by (auto simp: init_robots_def split: sum.splits)
  from assms(1) obtain e where "robots_read robots_url = Inl e" by blast
  with r show ?thesis by simp
qed

lemma site_mirror_init_robots_down:
  assumes "\<forall>x. \<exists>e. robots_read x = Inl e"
    and "site_mirror_init ipv robots_read start out incl maxp ignore ua = Inr m"
  shows "rp m = None"
proof (cases ignore)
  case True
  with assms(2) show ?thesis
    by (auto simp: site_mirror_init_def Let_def split: sum.splits if_splits)
next
  case False
  with assms(2) obtain su b where
    "init_robots ipv robots_read
       \<lparr>start_url = su, base = b, out_dir = out, include_subdomains = incl, max_pages = maxp,
        ignore_robots = False, user_agent = ua, seen_urls = {}, saved_urls = {}, page_count = 0,
        rp = None, work_q = []\<rparr> = Inr m"
    by (auto simp: site_mirror_init_def Let_def split: sum.splits if_splits)
  from init_robots_down[OF assms(1) this] show ?thesis by simp
qed

lemma site_mirror_init_fresh:
  assumes "site_mirror_init ipv robots_read start out incl maxp ignore ua = Inr m"
  shows "page_count m = 0" and "max_pages m = maxp" and "seen_urls m = {}" and "work_q m = []"
    and "saved_urls m = {}" and "include_subdomains m = incl" and "ignore_robots m = ignore"
  using assms
  by (auto simp: site_mirror_init_def init_robots_def Let_def split: sum.splits if_splits)

lemma worker_tasks_keep:
  assumes "fold_err (\<lambda>t st. worker_task ev st t) ts (m, fs) = Inr (m', fs')"
  shows "same_config m m'"
proof -
  have "same_config m (fst (m', fs'))"
  proof (rule fold_err_invariant[where P = "\<lambda>st. same_config m (fst st)", OF assms])
    show "same_config m (fst (m, fs))" by (simp add: same_config_refl)
  next
    fix x :: string and a b :: "site_mirror \<times> filesystem"
    assume "worker_task ev a x = Inr b" and "same_config m (fst a)"
    then show "same_config m (fst b)"
      using worker_task_keeps(1)[of ev "fst a" "snd a" x "fst b" "snd b"] same_config_trans
      by auto
  qed
  then show ?thesis by simp
qed

text \<open>
  C2. The robots check lets every URL through when no policy is loaded, when robots are
  ignored, or when the evaluation of the policy raises. When the robots file cannot be
  read, the constructed mirror has no policy, no task of the crawl gives it one, and so the
  check lets every URL through in every later state.
\<close>

theorem robots_fail_open:
  "(rp m = None \<or> ignore_robots m \<or> (\<exists>p e. rp m = Some p \<and> p (user_agent m) u = Inl e)
      \<longrightarrow> allowed_by_robots m u) \<and>
   ((\<forall>x. \<exists>e. robots_read x = Inl e) \<and>
    site_mirror_init ipv robots_read start out incl maxp ignore ua = Inr m0 \<and>
    fold_err (\<lambda>t st. worker_task ev st t) ts (m0, fs) = Inr (m1, fs1)
      \<longrightarrow> rp m1 = None \<and> (\<forall>x. allowed_by_robots m1 x))"
proof (intro conjI impI)
  assume "rp m = None \<or> ignore_robots m \<or> (\<exists>p e. rp m = Some p \<and> p (user_agent m) u = Inl e)"
  then show "allowed_by_robots m u"
    by (auto simp: allowed_by_robots_def)
next
  assume h: "(\<forall>x. \<exists>e. robots_read x = Inl e) \<and>
    site_mirror_init ipv robots_read start out incl maxp ignore ua = Inr m0 \<and>
    fold_err (\<lambda>t st. worker_task ev st t) ts (m0, fs) = Inr (m1, fs1)"
  then have "rp m0 = None"
    using site_mirror_init_robots_down by blast
  moreover from h have "same_config m0 m1"
    using worker_tasks_keep by blast
  ultimately show "rp m1 = None"
    by (simp add: same_config_def)
  then show "\<forall>x. allowed_by_robots m1 x"
    by (simp add: allowed_by_robots_def)
qed


lemma init_A_robots_down:
  "site_mirror_init any_host robots_down ''https://ex.com/'' out_A False maxp False ''SiteMirrorBot/1.0''
     = Inr (mirror_A maxp False)"
proof -
  have "urlparse any_host ''https://ex.com'' [] =
          Inr \<lparr>scheme = ''https'', netloc = ''ex.com'', path = [], params = [], query = [], fragment = []\<rparr>"
    by (simp add: url_defs)
  moreover have "urlparse any_host ''/robots.txt'' ''https'' =
          Inr \<lparr>scheme = ''https'', netloc = [], path = ''/robots.txt'', params = [], query = [], fragment = []\<rparr>"
    by (simp add: url_defs)
  ultimately have "urljoin any_host ''https://ex.com'' ''/robots.txt'' = Inr ''https://ex.com/robots.txt''"
    by (simp add: urljoin_def urljoin_parsed_def uses_relative_def uses_netloc_def resolve_path_def
        resolve_step_def urlunparse_def urlunsplit_def)
  then show ?thesis
    by (simp add: site_mirror_init_def normalize_start_A urlparse_start_A mirror_A_def base_A_def
        init_robots_def robots_down_def)
qed

lemma worker_task_unreachable_A:
  "worker_task (env_A about) (mirror_A maxp ignore, fs) ''https://ex.com/private/x''
     = Inr (mirror_A maxp ignore, fs)"
  by (simp add: worker_task_def allowed_by_robots_def mirror_A_def env_A_def web_A_def)

theorem robots_fail_open_witness:
  "(rp (mirror_A 0 False) = None \<and> allowed_by_robots (mirror_A 0 False) ''https://ex.com/private/x'') \<and>
   (ignore_robots (mirror_A 0 True) \<and> allowed_by_robots (mirror_A 0 True) ''https://ex.com/private/x'') \<and>
   (policy_raises ''SiteMirrorBot/1.0'' ''https://ex.com/private/x'' = Inl ValueError \<and>
    allowed_by_robots ((mirror_A 0 False)\<lparr>rp := Some policy_raises\<rparr>) ''https://ex.com/private/x'') \<and>
   ((\<forall>x. \<exists>e. robots_down x = Inl e) \<and>
    site_mirror_init any_host robots_down ''https://ex.com/'' out_A False 0 False ''SiteMirrorBot/1.0''
      = Inr (mirror_A 0 False) \<and>
    fold_err (\<lambda>t st. worker_task (env_A about_html) st t) [''https://ex.com/private/x'']
      (mirror_A 0 False, empty_fs) = Inr (mirror_A 0 False, empty_fs) \<and>
    (\<forall>x. allowed_by_robots (mirror_A 0 False) x))"
proof -
  have down: "\<forall>x. \<exists>e. robots_down x = Inl e"
    by (simp add: robots_down_def)
  have run: "fold_err (\<lambda>t st. worker_task (env_A about_html) st t) [''https://ex.com/private/x'']
      (mirror_A 0 False, empty_fs) = Inr (mirror_A 0 False, empty_fs)"
    by (simp add: worker_task_unreachable_A)
  have raises: "policy_raises ''SiteMirrorBot/1.0'' ''https://ex.com/private/x'' = Inl ValueError"
    by (simp add: policy_raises_def)
  have "rp (mirror_A 0 False) = None" "ignore_robots (mirror_A 0 True)"
    "rp ((mirror_A 0 False)\<lparr>rp := Some policy_raises\<rparr>) = Some policy_raises"
    "user_agent ((mirror_A 0 False)\<lparr>rp := Some policy_raises\<rparr>) = ''SiteMirrorBot/1.0''"
    by (simp_all add: mirror_A_def)
  with down run raises init_A_robots_down[of 0]
    robots_fail_open[of "mirror_A 0 False" "''https://ex.com/private/x''" robots_down any_host
      "''https://ex.com/''" out_A False 0 False "''SiteMirrorBot/1.0''" "mirror_A 0 False"
      "env_A about_html" "[''https://ex.com/private/x'']" empty_fs "mirror_A 0 False" empty_fs]
    robots_fail_open[of "mirror_A 0 True" "''https://ex.com/private/x''"]
    robots_fail_open[of "(mirror_A 0 False)\<lparr>rp := Some policy_raises\<rparr>" "''https://ex.com/private/x''"]
  show ?thesis
    by auto
qed

lemma enqueue_page_saved:
  "enqueue_page ipv p m = Inr m' \<Longrightarrow> saved_urls m' = saved_urls m"
  using enqueue_keeps(3)[of ipv m p m']
  by (auto simp: enqueue_page_def bind_err_Inr split: if_splits)

lemma enqueue_asset_saved:
  "enqueue_asset ipv a m = Inr m' \<Longrightarrow> saved_urls m' = saved_urls m"
  using enqueue_keeps(3)[of ipv m a m']
  by (auto simp: enqueue_asset_def bind_err_Inr split: if_splits)

lemma process_saved_saved:
  assumes "process_saved ev m u resp = Inr m'"
  shows "u \<in> saved_urls m'"
proof -
  let ?m1 = "m\<lparr>saved_urls := insert u (saved_urls m)\<rparr>"
  have s1: "u \<in> saved_urls ?m1" "u \<in> saved_urls (count_page ?m1)"
    by (simp_all add: count_page_def)
  from assms consider
      (plain) "m' = ?m1 \<or> m' = count_page ?m1"
    | (html) pages assets m3 where
        "fold_err (enqueue_page (env_ipv ev)) pages (count_page ?m1) = Inr m3"
        "fold_err (enqueue_asset (env_ipv ev)) assets m3 = Inr m'"
    | (css) urls where "fold_err (\<lambda>x m. enqueue (env_ipv ev) m x) urls ?m1 = Inr m'"
    by (auto simp: process_saved_def Let_def bind_err_Inr split: if_splits)
  then show ?thesis
  proof cases
    case plain
    with s1 show ?thesis by auto
  next
    case html
    have "u \<in> saved_urls m3"
      by (rule fold_err_invariant[where P = "\<lambda>x. u \<in> saved_urls x", OF html(1) s1(2)])
         (simp add: enqueue_page_saved)
    then show ?thesis
      by (rule fold_err_invariant[where P = "\<lambda>x. u \<in> saved_urls x", OF html(2)])
         (simp add: enqueue_asset_saved)
  next
    case css
    show ?thesis
      by (rule fold_err_invariant[where P = "\<lambda>x. u \<in> saved_urls x", OF css s1(1)])
         (simp add: enqueue_keeps(3))
  qed
qed

lemma worker_task_counts:
  assumes "worker_task ev (m, fs) u = Inr (m', fs')" and "page_count m' \<noteq> page_count m"
  shows "\<exists>resp. env_get ev u = Some resp \<and> status_code resp = 200 \<and>
           is_html (response_content_type resp) \<and> u \<in> saved_urls m' \<and>
           (max_pages m = 0 \<or> page_count m < max_pages m) \<and> page_count m' = page_count m + 1"
proof -
  from assms(2) have "m' \<noteq> m" by auto
  with assms(1) obtain resp where r: "env_get ev u = Some resp" "status_code resp = 200"
    and p: "process_saved ev m u resp = Inr m'"
    by (auto simp: worker_task_def bind_err_Inr split: if_splits option.splits)
  from process_saved_keeps(2)[OF p] assms(2)
  have h: "is_html (response_content_type resp)" and c: "page_count m' = page_count (count_page m)"
    by (auto split: if_splits)
  from c assms(2) have "(max_pages m = 0 \<or> page_count m < max_pages m) \<and> page_count m' = page_count m + 1"
    by (auto simp: count_page_count split: if_splits)
  with r h process_saved_saved[OF p] show ?thesis by blast
qed

lemma worker_tasks_capped:
  assumes run: "fold_err (\<lambda>t st. worker_task ev st t) ts (m, fs) = Inr (m', fs')"
    and pos: "0 < max_pages m" and le: "page_count m \<le> max_pages m"
  shows "page_count m' \<le> max_pages m"
proof -
  let ?P = "\<lambda>st. max_pages (fst st) = max_pages m \<and> page_count (fst st) \<le> max_pages m"
  have "?P (m', fs')"
  proof (rule fold_err_invariant[where P = ?P, OF run])
    show "?P (m, fs)" using le by simp
  next
    fix x :: string and a b :: "site_mirror \<times> filesystem"
    assume t: "worker_task ev a x = Inr b" and inv: "?P a"
    from t have t': "worker_task ev (fst a, snd a) x = Inr (fst b, snd b)" by simp
    from worker_task_keeps(1)[OF t'] inv have mp: "max_pages (fst b) = max_pages m"
      by (simp add: same_config_def)
    have "page_count (fst b) \<le> max_pages m"
    proof (cases "page_count (fst b) = page_count (fst a)")
      case True
      with inv show ?thesis by simp
    next
      case False
      from worker_task_counts[OF t' False] inv pos show ?thesis by auto
    qed
    with mp show "?P b" by simp
  qed
  then show ?thesis by simp
qed

lemma frontier_inv_init:
  "seen_urls m = {} \<Longrightarrow> work_q m = [] \<Longrightarrow> frontier_inv (frontier_init m)"
  by (simp add: frontier_inv_def frontier_init_def)

lemma frontier_invD:
  assumes "frontier_inv f"
  shows "distinct (fr_puts f)"
    and "fr_puts f = fr_taken f @ map task_url (work_q (fr_mirror f))"
    and "seen_urls (fr_mirror f) = set (fr_puts f) \<union> ran (fr_holding f)"
    and "\<And>t u. fr_holding f t = Some u \<Longrightarrow> u \<notin> set (fr_puts f)"
    and "\<And>t t' u. fr_holding f t = Some u \<Longrightarrow> fr_holding f t' = Some u \<Longrightarrow> t = t'"
  using assms unfolding frontier_inv_def by blast+

lemma frontier_step_inv:
  assumes "frontier_inv f"
  shows "frontier_inv (frontier_step ipv f e)"
proof (cases e)
  case (Check t u0)
  show ?thesis
  proof (cases "fr_holding f t = None \<and> (\<exists>u. normalize_url ipv u0 = Inr u \<and> u \<notin> seen_urls (fr_mirror f))")
    case False
    then have "frontier_step ipv f e = f"
      using Check by (auto split: sum.splits)
    with assms show ?thesis by simp
  next
    case True
    then obtain u where u: "normalize_url ipv u0 = Inr u" "u \<notin> seen_urls (fr_mirror f)"
      and free: "fr_holding f t = None" by blast
    let ?f' = "f\<lparr>fr_mirror := (fr_mirror f)\<lparr>seen_urls := insert u (seen_urls (fr_mirror f))\<rparr>,
                  fr_holding := (fr_holding f)(t \<mapsto> u)\<rparr>"
    have step: "frontier_step ipv f e = ?f'"
      using Check u free by simp
    from frontier_invD(3)[OF assms] u(2) have fresh: "u \<notin> set (fr_puts f)" "u \<notin> ran (fr_holding f)"
      by auto
    have ran': "ran ((fr_holding f)(t \<mapsto> u)) = insert u (ran (fr_holding f))"
      using free by simp
    from fresh(2) have nothold: "\<And>s. fr_holding f s \<noteq> Some u"
      by (auto simp: ran_def)
    have "frontier_inv ?f'"
      unfolding frontier_inv_def
    proof (intro conjI allI impI)
      show "distinct (fr_puts ?f')" using frontier_invD(1)[OF assms] by simp
      show "fr_puts ?f' = fr_taken ?f' @ map task_url (work_q (fr_mirror ?f'))"
        using frontier_invD(2)[OF assms] by simp
      show "seen_urls (fr_mirror ?f') = set (fr_puts ?f') \<union> ran (fr_holding ?f')"
        using frontier_invD(3)[OF assms] ran' by simp
    next
      fix s v assume "fr_holding ?f' s = Some v"
      then show "v \<notin> set (fr_puts ?f')"
        using frontier_invD(4)[OF assms] fresh(1) by (auto split: if_splits)
    next
      fix s s' v assume "fr_holding ?f' s = Some v \<and> fr_holding ?f' s' = Some v"
      then show "s = s'"
        using frontier_invD(5)[OF assms] nothold by (auto split: if_splits)
    qed
    with step show ?thesis by simp
  qed
next
  case (Put t)
  show ?thesis
  proof (cases "fr_holding f t")
    case None
    with Put assms show ?thesis by simp
  next
    case (Some u)
    let ?f' = "f\<lparr>fr_mirror := (fr_mirror f)\<lparr>work_q := work_q (fr_mirror f) @ [CrawlTask u]\<rparr>,
                  fr_holding := (fr_holding f)(t := None),
                  fr_puts := fr_puts f @ [u]\<rparr>"
    have step: "frontier_step ipv f e = ?f'"
      using Put Some by simp
    from frontier_invD(4,5)[OF assms] Some have notput: "u \<notin> set (fr_puts f)"
      and only: "\<And>s. fr_holding f s = Some u \<Longrightarrow> s = t"
      by blast+
    have ran': "ran ((fr_holding f)(t := None)) = ran (fr_holding f) - {u}"
    proof
      show "ran ((fr_holding f)(t := None)) \<subseteq> ran (fr_holding f) - {u}"
        using only by (auto simp: ran_def split: if_splits)
      show "ran (fr_holding f) - {u} \<subseteq> ran ((fr_holding f)(t := None))"
      proof
        fix x assume "x \<in> ran (fr_holding f) - {u}"
        then obtain a where a: "fr_holding f a = Some x" "x \<noteq> u"
          by (auto simp: ran_def)
        with Some have "a \<noteq> t" by auto
        with a show "x \<in> ran ((fr_holding f)(t := None))"
          by (auto simp: ran_def)
      qed
    qed
    have uran: "u \<in> ran (fr_holding f)"
      using Some by (auto simp: ran_def)
    have "frontier_inv ?f'"
      unfolding frontier_inv_def
    proof (intro conjI allI impI)
      show "distinct (fr_puts ?f')" using frontier_invD(1)[OF assms] notput by simp
      show "fr_puts ?f' = fr_taken ?f' @ map task_url (work_q (fr_mirror ?f'))"
        using frontier_invD(2)[OF assms] by simp
      show "seen_urls (fr_mirror ?f') = set (fr_puts ?f') \<union> ran (fr_holding ?f')"
        using frontier_invD(3)[OF assms] ran' uran by auto
    next
      fix s v assume "fr_holding ?f' s = Some v"
      then show "v \<notin> set (fr_puts ?f')"
        using frontier_invD(4)[OF assms] only by (auto split: if_splits)
    next
      fix s s' v assume "fr_holding ?f' s = Some v \<and> fr_holding ?f' s' = Some v"
      then show "s = s'"
        using frontier_invD(5)[OF assms] by (auto split: if_splits)
    qed
    with step show ?thesis by simp
  qed
next
  case Get
  show ?thesis
  proof (cases "work_q (fr_mirror f)")
    case Nil
    with Get assms show ?thesis by simp
  next
    case (Cons c cs)
    let ?f' = "f\<lparr>fr_mirror := (fr_mirror f)\<lparr>work_q := cs\<rparr>, fr_taken := fr_taken f @ [task_url c]\<rparr>"
    have step: "frontier_step ipv f e = ?f'"
      using Get Cons by simp
    have "frontier_inv ?f'"
      unfolding frontier_inv_def
      using frontier_invD[OF assms] Cons by (intro conjI allI impI) auto
    with step show ?thesis by simp
  qed
qed

lemma frontier_run_inv:
  "frontier_inv f \<Longrightarrow> frontier_inv (frontier_run ipv f es)"
  unfolding frontier_run_def
  by (induction es arbitrary: f) (simp_all add: frontier_step_inv)

lemma enqueue_as_steps:
  assumes "fr_holding f t = None" and "enqueue ipv (fr_mirror f) u0 = Inr m'"
  shows "fr_mirror (frontier_run ipv f [Check t u0, Put t]) = m'"
  using assms
  by (auto simp: frontier_run_def enqueue_def bind_err_Inr split: if_splits)


subsection \<open>Strings\<close>

lemma py_lower_char_hash: "py_lower_char c = CHR ''#'' \<longleftrightarrow> c = CHR ''#''"
proof
  assume h: "py_lower_char c = CHR ''#''"
  show "c = CHR ''#''"
  proof (rule ccontr)
    assume n: "c \<noteq> CHR ''#''"
    with h have up: "(65 \<le> (of_char c :: nat) \<and> (of_char c :: nat) \<le> 90) \<or>
        (192 \<le> (of_char c :: nat) \<and> (of_char c :: nat) \<le> 222 \<and> (of_char c :: nat) \<noteq> 215)"
      and eq: "char_of ((of_char c :: nat) + 32) = CHR ''#''"
      by (auto simp: py_lower_char_def Let_def split: if_splits)
    from eq have "(of_char (char_of ((of_char c :: nat) + 32)) :: nat) = of_char CHR ''#''"
      by simp
    then have m: "((of_char c :: nat) + 32) mod 256 = 35"
      by simp
    from up have "(of_char c :: nat) + 32 < 256" by linarith
    then have "((of_char c :: nat) + 32) mod 256 = of_char c + 32"
      by (rule mod_less)
    with m have "(of_char c :: nat) + 32 = 35" by simp
    with up show False by linarith
  qed
next
  assume "c = CHR ''#''"
  then show "py_lower_char c = CHR ''#''"
    by (simp add: py_lower_char_def)
qed

lemma py_lower_hash: "CHR ''#'' \<in> set (py_lower s) \<longleftrightarrow> CHR ''#'' \<in> set s"
proof -
  have "set (py_lower s) = py_lower_char ` set s"
    by (simp add: py_lower_def)
  then show ?thesis
    using py_lower_char_hash by (metis imageE image_eqI)
qed

lemma split1_sets:
  "set (fst (split1 c s)) \<subseteq> set s" "set (snd (split1 c s)) \<subseteq> set s" "c \<notin> set (fst (split1 c s))"
proof -
  show "set (fst (split1 c s)) \<subseteq> set s"
    by (auto simp: split1_def dest: set_takeWhileD)
  show "set (snd (split1 c s)) \<subseteq> set s"
    by (auto simp: split1_def dest: in_set_dropD set_dropWhileD)
  show "c \<notin> set (fst (split1 c s))"
    by (auto simp: split1_def dest: set_takeWhileD)
qed

lemma set_dropWhile_rev: "x \<in> set (dropWhile P (rev ys)) \<Longrightarrow> x \<in> set ys"
  by (metis set_dropWhileD set_rev)

lemma py_strip_subset: "set (py_strip s) \<subseteq> set s"
  by (auto simp: py_strip_def dest!: set_dropWhile_rev dest: set_dropWhileD)

lemma dropWhile_rev_idem:
  assumes "xs = [] \<or> \<not> P (hd xs)"
  shows "dropWhile P (rev (dropWhile P (rev xs))) = rev (dropWhile P (rev xs))"
proof -
  define d where "d = rev (dropWhile P (rev xs))"
  have "rev xs = takeWhile P (rev xs) @ dropWhile P (rev xs)"
    by simp
  then have "rev (rev xs) = rev (dropWhile P (rev xs)) @ rev (takeWhile P (rev xs))"
    by (metis rev_append)
  then have xs: "xs = d @ rev (takeWhile P (rev xs))"
    by (simp add: d_def)
  have "dropWhile P d = d"
  proof (cases d)
    case Nil
    then show ?thesis by simp
  next
    case (Cons a as)
    with xs have "hd xs = a" "xs \<noteq> []"
      by (metis append_Cons list.sel(1), metis append_Cons list.distinct(1))
    with assms have "\<not> P a" by auto
    with Cons show ?thesis by simp
  qed
  then show ?thesis by (simp add: d_def)
qed

lemma py_strip_idem: "py_strip (py_strip s) = py_strip s"
proof -
  define a where "a = dropWhile py_isspace s"
  define b where "b = rev (dropWhile py_isspace (rev a))"
  have "a = [] \<or> \<not> py_isspace (hd a)"
    unfolding a_def by (metis hd_dropWhile)
  then have "dropWhile py_isspace b = b"
    unfolding b_def by (rule dropWhile_rev_idem)
  moreover have "dropWhile py_isspace (rev b) = rev b"
    unfolding b_def by (simp add: dropWhile_idem)
  ultimately show ?thesis
    by (simp add: py_strip_def a_def b_def)
qed

lemma takeWhile_stop:
  "\<not> Q c \<Longrightarrow> takeWhile Q (xs @ c # ys) = takeWhile Q xs"
  by (induction xs) auto

lemma dropWhile_stop:
  "\<not> Q c \<Longrightarrow> dropWhile Q (xs @ c # ys) = dropWhile Q xs @ c # ys"
  by (induction xs) auto

lemma hash_facts:
  "\<not> c0_control_or_space CHR ''#''" "\<not> unsafe_url_byte CHR ''#''" "netloc_delim CHR ''#''"
  "CHR ''#'' \<notin> set scheme_chars" "\<not> py_isspace CHR ''#''"
  by (simp_all add: c0_control_or_space_def unsafe_url_byte_def netloc_delim_def scheme_chars_def
      py_isspace_def)

lemma remove_unsafe_hash:
  "remove_unsafe (xs @ CHR ''#'' # ys) = remove_unsafe xs @ CHR ''#'' # remove_unsafe ys"
  by (simp add: remove_unsafe_def hash_facts)

lemma remove_unsafe_subset: "set (remove_unsafe xs) \<subseteq> set xs"
  by (auto simp: remove_unsafe_def)

lemma split_scheme_subset: "set (snd (split_scheme d u)) \<subseteq> set u"
  using split1_sets(2)[of "CHR '':''" u] by (auto simp: split_scheme_def)

lemma split_scheme_hash:
  assumes "CHR ''#'' \<notin> set x"
  shows "split_scheme d (x @ CHR ''#'' # g) =
           (fst (split_scheme d x), snd (split_scheme d x) @ CHR ''#'' # g)"
proof (cases "CHR '':'' \<in> set x")
  case True
  then have ne: "x \<noteq> []" by auto
  have tw: "takeWhile (\<lambda>c. c \<noteq> CHR '':'') (x @ CHR ''#'' # g) = takeWhile (\<lambda>c. c \<noteq> CHR '':'') x"
    using True by (simp add: takeWhile_append1)
  have dw: "dropWhile (\<lambda>c. c \<noteq> CHR '':'') (x @ CHR ''#'' # g)
              = dropWhile (\<lambda>c. c \<noteq> CHR '':'') x @ CHR ''#'' # g"
    using True by (simp add: dropWhile_append1)
  have dne: "dropWhile (\<lambda>c. c \<noteq> CHR '':'') x \<noteq> []"
    using True by (simp add: dropWhile_eq_Nil_conv)
  have hd: "hd (x @ CHR ''#'' # g) = hd x"
    using ne by simp
  have len: "Suc 0 - length (dropWhile (\<lambda>c. c \<noteq> CHR '':'') x) = 0"
    using dne by (cases "dropWhile (\<lambda>c. c \<noteq> CHR '':'') x") simp_all
  have dr: "drop 1 (dropWhile (\<lambda>c. c \<noteq> CHR '':'') x @ CHR ''#'' # g)
              = drop 1 (dropWhile (\<lambda>c. c \<noteq> CHR '':'') x) @ CHR ''#'' # g"
    using len by simp
  have "CHR '':'' \<in> set (x @ CHR ''#'' # g)"
    using True by simp
  then show ?thesis
    unfolding split_scheme_def split1_def tw dw hd dr using True by simp
next
  case False
  have tw: "takeWhile (\<lambda>c. c \<noteq> CHR '':'') (x @ CHR ''#'' # g)
              = x @ CHR ''#'' # takeWhile (\<lambda>c. c \<noteq> CHR '':'') g"
    using False by (induction x) auto
  have "\<not> (\<forall>c\<in>set (takeWhile (\<lambda>c. c \<noteq> CHR '':'') (x @ CHR ''#'' # g)). c \<in> set scheme_chars)"
    unfolding tw using hash_facts(4) by auto
  with False show ?thesis
    unfolding split_scheme_def by auto
qed

lemma take2_hash:
  assumes "CHR ''#'' \<notin> set r"
  shows "take 2 (r @ CHR ''#'' # g) = ''//'' \<longleftrightarrow> take 2 r = ''//''"
proof (cases r)
  case Nil
  then show ?thesis by simp
next
  case (Cons a r')
  then show ?thesis
    by (cases r') (simp_all add: numeral_2_eq_2)
qed

lemma splitnetloc_hash:
  assumes "take 2 r = ''//''"
  shows "splitnetloc (r @ CHR ''#'' # g) = (fst (splitnetloc r), snd (splitnetloc r) @ CHR ''#'' # g)"
proof -
  from assms have "length r \<ge> 2"
    by (metis length_take min.cobounded1 length_Cons list.size(3) One_nat_def Suc_1 min_def not_less_eq_eq)
  then have "drop 2 (r @ CHR ''#'' # g) = drop 2 r @ CHR ''#'' # g"
    by simp
  then show ?thesis
    using hash_facts(3) by (simp add: splitnetloc_def takeWhile_stop dropWhile_stop)
qed


lemma splitnetloc_subset: "set (fst (splitnetloc r)) \<subseteq> set r" "set (snd (splitnetloc r)) \<subseteq> set r"
  by (auto simp: splitnetloc_def dest: set_takeWhileD set_dropWhileD in_set_dropD)

lemma split1_at_hash:
  "CHR ''#'' \<notin> set u \<Longrightarrow> split1 CHR ''#'' (u @ CHR ''#'' # g) = (u, g)"
  by (induction u) (auto simp: split1_def)

text \<open>What comes after the first \<open>#\<close> reaches the fragment only.\<close>

lemma urlsplit_hash:
  assumes "CHR ''#'' \<notin> set x"
  shows "urlsplit ipv (x @ CHR ''#'' # g) d =
     (case urlsplit ipv x d of
        Inl e \<Rightarrow> Inl e
      | Inr (s, n, p, q, f) \<Rightarrow> Inr (s, n, p, q, remove_unsafe g))"
proof -
  let ?X = "remove_unsafe (lstrip_chars c0_control_or_space x)"
  let ?G = "remove_unsafe g"
  let ?d = "remove_unsafe (strip_chars c0_control_or_space d)"
  let ?S = "fst (split_scheme ?d ?X)"
  let ?R = "snd (split_scheme ?d ?X)"
  have xh: "CHR ''#'' \<notin> set ?X"
    using assms remove_unsafe_subset by (fastforce simp: lstrip_chars_def dest: set_dropWhileD)
  have rh: "CHR ''#'' \<notin> set ?R"
    using xh split_scheme_subset by fastforce
  have u1: "remove_unsafe (lstrip_chars c0_control_or_space (x @ CHR ''#'' # g)) = ?X @ CHR ''#'' # ?G"
    by (simp add: lstrip_chars_def dropWhile_stop hash_facts remove_unsafe_hash)
  have ss: "split_scheme ?d (?X @ CHR ''#'' # ?G) = (?S, ?R @ CHR ''#'' # ?G)"
    by (rule split_scheme_hash[OF xh])
  show ?thesis
  proof (cases "take 2 ?R = ''//''")
    case True
    let ?N = "fst (splitnetloc ?R)"
    let ?U = "snd (splitnetloc ?R)"
    have t2: "take 2 (?R @ CHR ''#'' # ?G) = ''//''"
      using True take2_hash[OF rh] by blast
    have sn: "splitnetloc (?R @ CHR ''#'' # ?G) = (?N, ?U @ CHR ''#'' # ?G)"
      by (rule splitnetloc_hash[OF True])
    have uh: "CHR ''#'' \<notin> set ?U"
      using rh splitnetloc_subset(2) by fastforce
    have sp: "split1 CHR ''#'' (?U @ CHR ''#'' # ?G) = (?U, ?G)"
      by (rule split1_at_hash[OF uh])
    show ?thesis
      unfolding urlsplit_def Let_def case_prod_beta u1
      using True t2 uh by (simp add: ss sn sp)
  next
    case False
    have t2: "take 2 (?R @ CHR ''#'' # ?G) \<noteq> ''//''"
      using False take2_hash[OF rh] by blast
    have sp: "split1 CHR ''#'' (?R @ CHR ''#'' # ?G) = (?R, ?G)"
      by (rule split1_at_hash[OF rh])
    show ?thesis
      unfolding urlsplit_def Let_def case_prod_beta u1
      using False t2 rh by (simp add: ss sp)
  qed
qed

lemma py_strip_hash:
  "py_strip (x @ CHR ''#'' # f) =
     dropWhile py_isspace x @ CHR ''#'' # rev (dropWhile py_isspace (rev f))"
proof -
  have "dropWhile py_isspace (x @ CHR ''#'' # f) = dropWhile py_isspace x @ CHR ''#'' # f"
    by (simp add: dropWhile_stop hash_facts)
  moreover have "dropWhile py_isspace (rev f @ CHR ''#'' # rev (dropWhile py_isspace x))
      = dropWhile py_isspace (rev f) @ CHR ''#'' # rev (dropWhile py_isspace x)"
    by (simp add: dropWhile_stop hash_facts)
  ultimately show ?thesis
    by (simp add: py_strip_def)
qed

lemma urlparse_hash:
  assumes "CHR ''#'' \<notin> set x"
  shows "urlparse ipv (x @ CHR ''#'' # g) d =
     (case urlparse ipv x d of
        Inl e \<Rightarrow> Inl e
      | Inr r \<Rightarrow> Inr (r\<lparr>fragment := remove_unsafe g\<rparr>))"
  unfolding urlparse_def urlsplit_hash[OF assms]
  by (auto simp: Let_def split: sum.splits prod.splits)

lemma normalize_hash:
  assumes "CHR ''#'' \<notin> set x"
  shows "normalize_url ipv (x @ CHR ''#'' # f) =
     (case urlparse ipv (dropWhile py_isspace x) [] of
        Inl e \<Rightarrow> Inl e
      | Inr r \<Rightarrow> Inr (urlunparse (r\<lparr>fragment := []\<rparr>)))"
proof -
  have "CHR ''#'' \<notin> set (dropWhile py_isspace x)"
    using assms by (auto dest: set_dropWhileD)
  from urlparse_hash[OF this, of ipv "rev (dropWhile py_isspace (rev f))" "[]"]
  show ?thesis
    by (simp add: normalize_url_def urldefrag_def py_strip_hash split: sum.splits)
qed

lemma normalize_plain:
  "CHR ''#'' \<notin> set u \<Longrightarrow> normalize_url ipv u = Inr (py_strip u)"
  using py_strip_subset[of u] by (auto simp: normalize_url_def urldefrag_def)

lemma lstrip_subset: "set (lstrip_chars P s) \<subseteq> set s"
  by (auto simp: lstrip_chars_def dest: set_dropWhileD)

lemma strip_chars_subset: "set (strip_chars P s) \<subseteq> set s"
  by (auto simp: strip_chars_def dest!: set_dropWhile_rev dest: set_dropWhileD)

lemma pair_if_split1:
  assumes "(p, q) = (if c \<in> set v then split1 c v else (v, []))"
  shows "set p \<subseteq> set v" and "set q \<subseteq> set v"
proof -
  have "p = (if c \<in> set v then fst (split1 c v) else v)"
    and "q = (if c \<in> set v then snd (split1 c v) else [])"
    using assms by (auto split: if_splits simp: prod_eq_iff)
  then show "set p \<subseteq> set v" and "set q \<subseteq> set v"
    using split1_sets(1,2)[of c v] by (auto split: if_splits)
qed

text \<open>The pieces that \<open>urlsplit\<close> returns are made of characters of the cleaned URL;
  the netloc has no delimiter in it.\<close>

lemma urlsplit_parts:
  assumes "urlsplit ipv u d = Inr (s, n, p, q, f)"
  shows "set n \<subseteq> set (remove_unsafe u)" and "set p \<subseteq> set (remove_unsafe u)"
    and "set q \<subseteq> set (remove_unsafe u)" and "\<forall>c\<in>set n. \<not> netloc_delim c"
    and "CHR ''#'' \<notin> set p" and "CHR ''#'' \<notin> set q"
proof -
  let ?X = "remove_unsafe (lstrip_chars c0_control_or_space u)"
  let ?d = "remove_unsafe (strip_chars c0_control_or_space d)"
  let ?R = "snd (split_scheme ?d ?X)"
  let ?N = "if take 2 ?R = ''//'' then fst (splitnetloc ?R) else []"
  let ?U = "if take 2 ?R = ''//'' then snd (splitnetloc ?R) else ?R"
  let ?V = "if CHR ''#'' \<in> set ?U then fst (split1 CHR ''#'' ?U) else ?U"
  have X: "set ?X \<subseteq> set (remove_unsafe u)"
    using lstrip_subset[of c0_control_or_space u] by (auto simp: remove_unsafe_def)
  have R: "set ?R \<subseteq> set ?X" by (rule split_scheme_subset)
  have N: "set ?N \<subseteq> set ?R" using splitnetloc_subset(1)[of ?R] by auto
  have U: "set ?U \<subseteq> set ?R" using splitnetloc_subset(2)[of ?R] by auto
  have V: "set ?V \<subseteq> set ?U" using split1_sets(1)[of "CHR ''#''" ?U] by auto
  have Vh: "CHR ''#'' \<notin> set ?V" using split1_sets(3)[of "CHR ''#''" ?U] by auto
  from assms have n: "n = ?N"
    and pq: "(p, q) = (if CHR ''?'' \<in> set ?V then split1 CHR ''?'' ?V else (?V, []))"
    by (auto simp: urlsplit_def Let_def case_prod_beta split: if_splits)
  from pq have pV: "set p \<subseteq> set ?V" and qV: "set q \<subseteq> set ?V"
    by (rule pair_if_split1)+
  show "set n \<subseteq> set (remove_unsafe u)" using n N R X by blast
  show "set p \<subseteq> set (remove_unsafe u)" using pV V U R X by blast
  show "set q \<subseteq> set (remove_unsafe u)" using qV V U R X by blast
  show "\<forall>c\<in>set n. \<not> netloc_delim c"
    unfolding n by (auto simp: splitnetloc_def dest: set_takeWhileD)
  show "CHR ''#'' \<notin> set p" using pV Vh by blast
  show "CHR ''#'' \<notin> set q" using qV Vh by blast
qed

lemma urlsplit_scheme:
  assumes "urlsplit ipv u [] = Inr (s, n, p, q, f)"
  shows "CHR ''#'' \<notin> set s"
proof -
  let ?X = "remove_unsafe (lstrip_chars c0_control_or_space u)"
  from assms have s: "s = fst (split_scheme [] ?X)"
    by (auto simp: urlsplit_def Let_def case_prod_beta strip_chars_def remove_unsafe_def split: if_splits)
  show ?thesis
  proof (cases "s = []")
    case True
    then show ?thesis by simp
  next
    case False
    with s have "s = py_lower (takeWhile (\<lambda>c. c \<noteq> CHR '':'') ?X)"
      and "\<forall>c\<in>set (takeWhile (\<lambda>c. c \<noteq> CHR '':'') ?X). c \<in> set scheme_chars"
      by (auto simp: split_scheme_def split1_def split: if_splits)
    with hash_facts(4) show ?thesis
      by (auto simp: py_lower_hash)
  qed
qed

lemma rpartition_subset:
  "set (fst (rpartition_str c s)) \<subseteq> set s" "set (snd (snd (rpartition_str c s))) \<subseteq> set s"
  by (auto simp: rpartition_str_def dest!: set_dropWhile_rev in_set_dropD set_takeWhileD)

lemma splitparams_hash:
  assumes "CHR ''#'' \<notin> set u"
  shows "CHR ''#'' \<notin> set (fst (splitparams u))" "CHR ''#'' \<notin> set (snd (splitparams u))"
proof -
  have a: "set (fst (rpartition_str CHR ''/'' u)) \<subseteq> set u"
    and b: "set (snd (snd (rpartition_str CHR ''/'' u))) \<subseteq> set u"
    by (rule rpartition_subset)+
  let ?f = "snd (snd (rpartition_str CHR ''/'' u))"
  have c: "set (fst (split1 CHR '';'' ?f)) \<subseteq> set ?f" "set (snd (split1 CHR '';'' ?f)) \<subseteq> set ?f"
    "set (fst (split1 CHR '';'' u)) \<subseteq> set u" "set (snd (split1 CHR '';'' u)) \<subseteq> set u"
    by (rule split1_sets)+
  show "CHR ''#'' \<notin> set (fst (splitparams u))"
    using assms a b c by (auto simp: splitparams_def case_prod_beta split: if_splits)
  show "CHR ''#'' \<notin> set (snd (splitparams u))"
    using assms a b c by (auto simp: splitparams_def case_prod_beta split: if_splits)
qed

lemma urlparse_no_hash:
  assumes "urlparse ipv u [] = Inr r"
  shows "CHR ''#'' \<notin> set (urlunparse (r\<lparr>fragment := []\<rparr>))"
proof -
  from assms obtain s n p q f where sp: "urlsplit ipv u [] = Inr (s, n, p, q, f)"
    by (auto simp: urlparse_def split: sum.splits)
  have n: "CHR ''#'' \<notin> set n"
    using urlsplit_parts(4)[OF sp] hash_facts(3) by blast
  note p = urlsplit_parts(5)[OF sp] and q = urlsplit_parts(6)[OF sp]
  note s = urlsplit_scheme[OF sp]
  from assms sp have r: "scheme r = s" "netloc r = n" "query r = q"
    "(path r, params r) = (if s \<in> set uses_params \<and> CHR '';'' \<in> set p then splitparams p else (p, []))"
    by (auto simp: urlparse_def Let_def case_prod_beta)
  from r(4) have "path r = (if s \<in> set uses_params \<and> CHR '';'' \<in> set p then fst (splitparams p) else p)"
    and "params r = (if s \<in> set uses_params \<and> CHR '';'' \<in> set p then snd (splitparams p) else [])"
    by (auto split: if_splits simp: prod_eq_iff)
  with p splitparams_hash[OF p] have pp: "CHR ''#'' \<notin> set (path r)" "CHR ''#'' \<notin> set (params r)"
    by (auto split: if_splits)
  show ?thesis
    using s n q pp r(1,2,3)
    by (auto simp: urlunparse_def urlunsplit_def Let_def split: if_splits)
qed

lemma normalize_no_hash:
  assumes "normalize_url ipv u = Inr r"
  shows "CHR ''#'' \<notin> set r"
proof (cases "CHR ''#'' \<in> set (py_strip u)")
  case False
  with assms show ?thesis
    by (auto simp: normalize_url_def urldefrag_def)
next
  case True
  with assms obtain p where "urlparse ipv (py_strip u) [] = Inr p" "r = urlunparse (p\<lparr>fragment := []\<rparr>)"
    by (auto simp: normalize_url_def urldefrag_def split: sum.splits)
  with urlparse_no_hash show ?thesis by blast
qed

text \<open>
  C10, as the code has it. Normalizing a normalized URL strips its outer whitespace and
  does nothing else, so \<open>normalize_url\<close> is idempotent exactly on the inputs whose
  normal form has no outer whitespace; every input without \<open>#\<close> is one.
\<close>

theorem normalize_twice:
  "(normalize_url ipv u = Inr r \<longrightarrow>
      normalize_url ipv r = Inr (py_strip r) \<and>
      (normalize_url ipv r = Inr r \<longleftrightarrow> py_strip r = r)) \<and>
   (CHR ''#'' \<notin> set u \<longrightarrow>
      (\<exists>r. normalize_url ipv u = Inr r \<and> normalize_url ipv r = Inr r))"
proof (intro conjI impI)
  assume n: "normalize_url ipv u = Inr r"
  show "normalize_url ipv r = Inr (py_strip r)"
    using normalize_no_hash[OF n] by (rule normalize_plain)
  then show "normalize_url ipv r = Inr r \<longleftrightarrow> py_strip r = r"
    by auto
next
  assume h: "CHR ''#'' \<notin> set u"
  then have 1: "normalize_url ipv u = Inr (py_strip u)"
    by (rule normalize_plain)
  have "CHR ''#'' \<notin> set (py_strip u)"
    using h py_strip_subset by blast
  then have "normalize_url ipv (py_strip u) = Inr (py_strip (py_strip u))"
    by (rule normalize_plain)
  with 1 show "\<exists>r. normalize_url ipv u = Inr r \<and> normalize_url ipv r = Inr r"
    by (simp add: py_strip_idem)
qed

text \<open>
  C10 fails as stated: the text before the fragment may end in whitespace, which the
  first normalization keeps and the second strips.
\<close>

theorem normalize_not_idempotent:
  "normalize_url any_host ''https://a/b #f'' = Inr ''https://a/b '' \<and>
   normalize_url any_host ''https://a/b '' = Inr ''https://a/b''"
  by (simp add: url_defs)

theorem normalize_twice_witness:
  "normalize_url any_host ''https://a/b #f'' = Inr ''https://a/b '' \<and>
   normalize_url any_host ''https://a/b '' = Inr (py_strip ''https://a/b '') \<and>
   py_strip ''https://a/b '' \<noteq> ''https://a/b '' \<and>
   normalize_url any_host ''https://a/b '' \<noteq> Inr ''https://a/b '' \<and>
   CHR ''#'' \<notin> set '' https://a/b?x=1 '' \<and>
   normalize_url any_host '' https://a/b?x=1 '' = Inr ''https://a/b?x=1'' \<and>
   normalize_url any_host ''https://a/b?x=1'' = Inr ''https://a/b?x=1''"
proof -
  have 1: "normalize_url any_host ''https://a/b #f'' = Inr ''https://a/b ''"
    by (simp add: url_defs)
  have 2: "py_strip ''https://a/b '' \<noteq> ''https://a/b ''"
    by (simp add: py_strip_def py_isspace_def)
  have 3: "CHR ''#'' \<notin> set '' https://a/b?x=1 ''"
    by simp
  have 4: "normalize_url any_host '' https://a/b?x=1 '' = Inr ''https://a/b?x=1''"
    by (simp add: url_defs)
  from 1 normalize_twice[of any_host "''https://a/b #f''" "''https://a/b ''"]
  have a: "normalize_url any_host ''https://a/b '' = Inr (py_strip ''https://a/b '')"
    and b: "normalize_url any_host ''https://a/b '' = Inr ''https://a/b '' \<longleftrightarrow>
            py_strip ''https://a/b '' = ''https://a/b ''"
    by blast+
  from b 2 have c: "normalize_url any_host ''https://a/b '' \<noteq> Inr ''https://a/b ''"
    by blast
  from 3 normalize_twice[of any_host "'' https://a/b?x=1 ''"]
  obtain r where "normalize_url any_host '' https://a/b?x=1 '' = Inr r" "normalize_url any_host r = Inr r"
    by blast
  with 4 have d: "normalize_url any_host ''https://a/b?x=1'' = Inr ''https://a/b?x=1''"
    by simp
  from 1 a 2 c 3 4 d show ?thesis
    by blast
qed

text \<open>
  C8 fails as stated: a URL with a fragment is re-assembled from its parsed components,
  a URL without one is only stripped, so the two results differ where the text before
  the fragment is not in re-assembled form (here an empty query).
\<close>

theorem normalize_fragment_sensitive:
  "urlparse any_host ''https://a/b?#frag1'' [] =
     Inr \<lparr>scheme = ''https'', netloc = ''a'', path = ''/b'', params = [], query = [], fragment = ''frag1''\<rparr> \<and>
   urlparse any_host ''https://a/b?'' [] =
     Inr \<lparr>scheme = ''https'', netloc = ''a'', path = ''/b'', params = [], query = [], fragment = []\<rparr> \<and>
   normalize_url any_host ''https://a/b?#frag1'' = Inr ''https://a/b'' \<and>
   normalize_url any_host ''https://a/b?'' = Inr ''https://a/b?''"
  by (simp add: url_defs)

text \<open>
  C8, as the code has it. Two URLs with the same text before their first \<open>#\<close> have
  the same normal form, whatever follows the \<open>#\<close>: it is the re-assembly, without
  fragment, of the parsed components of that text (or the parser's exception). A URL
  without \<open>#\<close> is stripped of outer whitespace and otherwise returned as it is, query
  and path included.
\<close>

theorem normalize_fragment:
  "(CHR ''#'' \<notin> set x \<longrightarrow>
      normalize_url ipv (x @ CHR ''#'' # f1) = normalize_url ipv (x @ CHR ''#'' # f2) \<and>
      normalize_url ipv (x @ CHR ''#'' # f1) =
        (case urlparse ipv (dropWhile py_isspace x) [] of
           Inl e \<Rightarrow> Inl e
         | Inr r \<Rightarrow> Inr (urlunparse (r\<lparr>fragment := []\<rparr>)))) \<and>
   (CHR ''#'' \<notin> set u \<longrightarrow> normalize_url ipv u = Inr (py_strip u))"
  by (simp add: normalize_hash normalize_plain)

theorem normalize_fragment_witness:
  "CHR ''#'' \<notin> set ''https://a/b'' \<and>
   normalize_url any_host ''https://a/b#frag1'' = normalize_url any_host ''https://a/b#frag2'' \<and>
   normalize_url any_host ''https://a/b#frag1'' = Inr ''https://a/b'' \<and>
   CHR ''#'' \<notin> set '' https://a/b?q=1;x '' \<and>
   normalize_url any_host '' https://a/b?q=1;x '' = Inr ''https://a/b?q=1;x''"
proof -
  have 1: "CHR ''#'' \<notin> set ''https://a/b''" "CHR ''#'' \<notin> set '' https://a/b?q=1;x ''"
    by simp_all
  have 2: "urlparse any_host (dropWhile py_isspace ''https://a/b'') [] =
      Inr \<lparr>scheme = ''https'', netloc = ''a'', path = ''/b'', params = [], query = [], fragment = []\<rparr>"
    by (simp add: url_defs)
  have 3: "py_strip '' https://a/b?q=1;x '' = ''https://a/b?q=1;x''"
    by (simp add: py_strip_def py_isspace_def)
  from 1 2 3
    normalize_fragment[of "''https://a/b''" any_host "''frag1''" "''frag2''" "'' https://a/b?q=1;x ''"]
  show ?thesis
    by (auto simp: urlunparse_def urlunsplit_def uses_netloc_def)
qed

subsection \<open>The page counter in the pool\<close>

lemma start_enqueue_cases:
  "(\<exists>e. start_enqueue ipv u js = Dead e) \<or> (\<exists>v. start_enqueue ipv u js = CheckSeen v js)"
  by (auto simp: start_enqueue_def split: sum.splits)

lemma checked_enqueue_cases:
  "(\<exists>e. checked_enqueue ipv m u js = Dead e) \<or> (\<exists>v. checked_enqueue ipv m u js = CheckSeen v js)
     \<or> checked_enqueue ipv m u js = Jobs js"
  using start_enqueue_cases[of ipv u js]
  by (auto simp: checked_enqueue_def split: sum.splits)

lemma thread_ok_simple:
  "thread_ok ev m Waiting" "thread_ok ev m (Got u)" "thread_ok ev m (Jobs js)"
  "thread_ok ev m (CheckSeen v js)" "thread_ok ev m (Putting v js)" "thread_ok ev m (Dead e)"
  "thread_ok ev m (start_enqueue ipv u js)" "thread_ok ev m (checked_enqueue ipv m2 u js)"
  using start_enqueue_cases[of ipv u js] checked_enqueue_cases[of ipv m2 u js]
  by (auto simp: thread_ok_def)

text \<open>One step of a thread: the configuration stays, the saved set grows, the thread's
  new state is in order, and the counter moves only in the counting block.\<close>

lemma thread_step_effect:
  assumes "thread_step ev m fs taken th = (m', fs', taken', th')" and "thread_ok ev m th"
  shows "same_config m m'" and "saved_urls m \<subseteq> saved_urls m'" and "thread_ok ev m' th'"
    and "page_count m' = page_count m \<or>
         (\<exists>u resp. th = Branching u resp \<and> is_html (response_content_type resp) \<and>
                   m' = count_page m)"
proof -
  have "same_config m m' \<and> saved_urls m \<subseteq> saved_urls m' \<and> thread_ok ev m' th' \<and>
        (page_count m' = page_count m \<or>
         (\<exists>u resp. th = Branching u resp \<and> is_html (response_content_type resp) \<and>
                   m' = count_page m))"
  proof (cases th)
    case Waiting
    with assms show ?thesis
      by (auto simp: same_config_def thread_ok_def split: list.splits)
  next
    case (Got u)
    with assms show ?thesis
      by (auto simp: same_config_def thread_ok_def split: if_splits option.splits sum.splits prod.splits)
  next
    case (SavedResp u resp)
    with assms show ?thesis
      by (auto simp: same_config_def thread_ok_def)
  next
    case (Branching u resp)
    with assms show ?thesis
      by (auto simp: same_config_def thread_ok_def count_page_def Let_def
          split: if_splits sum.splits)
  next
    case (Extract u resp)
    with assms show ?thesis
      by (auto simp: same_config_def thread_ok_def Let_def split: if_splits sum.splits prod.splits)
  next
    case (Jobs js)
    show ?thesis
    proof (cases js)
      case Nil
      with Jobs assms show ?thesis
        by (auto simp: same_config_def thread_ok_def)
    next
      case (Cons j js')
      with Jobs assms show ?thesis
        by (cases j) (auto simp: same_config_refl thread_ok_simple split: if_splits)
    qed
  next
    case (CheckSeen v js)
    with assms show ?thesis
      by (auto simp: same_config_def thread_ok_def split: if_splits)
  next
    case (Putting v js)
    with assms show ?thesis
      by (auto simp: same_config_def thread_ok_def)
  next
    case (Dead e)
    with assms show ?thesis
      by (auto simp: same_config_def thread_ok_def)
  qed
  then show "same_config m m'" and "saved_urls m \<subseteq> saved_urls m'" and "thread_ok ev m' th'"
    and "page_count m' = page_count m \<or>
         (\<exists>u resp. th = Branching u resp \<and> is_html (response_content_type resp) \<and>
                   m' = count_page m)"
    by simp_all
qed

lemma thread_ok_mono:
  "thread_ok ev m th \<Longrightarrow> saved_urls m \<subseteq> saved_urls m' \<Longrightarrow> thread_ok ev m' th"
  by (auto simp: thread_ok_def split: thread.splits)

lemma pool_step_ok:
  assumes "pool_ok ev p"
  shows "pool_ok ev (pool_step ev p t)"
proof (cases "t < length (pl_threads p)")
  case False
  with assms show ?thesis by (simp add: pool_step_def)
next
  case True
  obtain m' fs' taken' th' where
    st: "thread_step ev (pl_mirror p) (pl_fs p) (pl_taken p) (pl_threads p ! t) = (m', fs', taken', th')"
    by (metis prod_cases4)
  have okt: "thread_ok ev (pl_mirror p) (pl_threads p ! t)"
    using assms True by (simp add: pool_ok_def)
  note eff = thread_step_effect[OF st okt]
  have p': "pool_step ev p t =
      \<lparr>pl_mirror = m', pl_fs = fs', pl_threads = (pl_threads p)[t := th'], pl_taken = taken'\<rparr>"
    using True st by (simp add: pool_step_def)
  have "\<forall>th \<in> set ((pl_threads p)[t := th']). thread_ok ev m' th"
  proof
    fix th assume "th \<in> set ((pl_threads p)[t := th'])"
    then have "th = th' \<or> th \<in> set (pl_threads p)"
      by (meson insertE set_update_subset_insert subsetD)
    then show "thread_ok ev m' th"
      using eff(2,3) assms thread_ok_mono by (auto simp: pool_ok_def)
  qed
  with p' show ?thesis by (simp add: pool_ok_def)
qed

lemma pool_step_counter:
  assumes "pool_ok ev p"
    and "page_count (pl_mirror (pool_step ev p t)) \<noteq> page_count (pl_mirror p)"
  shows "\<exists>u resp. t < length (pl_threads p) \<and> pl_threads p ! t = Branching u resp \<and>
           env_get ev u = Some resp \<and> status_code resp = 200 \<and>
           is_html (response_content_type resp) \<and> u \<in> saved_urls (pl_mirror p) \<and>
           (max_pages (pl_mirror p) = 0 \<or> page_count (pl_mirror p) < max_pages (pl_mirror p)) \<and>
           page_count (pl_mirror (pool_step ev p t)) = page_count (pl_mirror p) + 1"
proof -
  from assms(2) have True: "t < length (pl_threads p)"
    by (auto simp: pool_step_def split: if_splits)
  obtain m' fs' taken' th' where
    st: "thread_step ev (pl_mirror p) (pl_fs p) (pl_taken p) (pl_threads p ! t) = (m', fs', taken', th')"
    by (metis prod_cases4)
  have okt: "thread_ok ev (pl_mirror p) (pl_threads p ! t)"
    using assms(1) True by (simp add: pool_ok_def)
  have p': "pl_mirror (pool_step ev p t) = m'"
    using True st by (simp add: pool_step_def)
  from thread_step_effect(4)[OF st okt] assms(2) p'
  obtain u resp where b: "pl_threads p ! t = Branching u resp" "is_html (response_content_type resp)"
    "m' = count_page (pl_mirror p)"
    by auto
  from okt b(1) have r: "env_get ev u = Some resp" "status_code resp = 200" "u \<in> saved_urls (pl_mirror p)"
    by (simp_all add: thread_ok_def)
  from assms(2) p' b(3)
  have "(max_pages (pl_mirror p) = 0 \<or> page_count (pl_mirror p) < max_pages (pl_mirror p)) \<and>
        page_count m' = page_count (pl_mirror p) + 1"
    by (auto simp: count_page_count split: if_splits)
  with True b r p' show ?thesis by auto
qed

lemma pool_step_config:
  "same_config (pl_mirror p) (pl_mirror (pool_step ev p t))"
proof (cases "t < length (pl_threads p)")
  case False
  then show ?thesis by (simp add: pool_step_def same_config_refl)
next
  case True
  obtain m' fs' taken' th' where
    st: "thread_step ev (pl_mirror p) (pl_fs p) (pl_taken p) (pl_threads p ! t) = (m', fs', taken', th')"
    by (metis prod_cases4)
  have "same_config (pl_mirror p) m'"
    using st
    by (cases rule: thread_step.cases[of "(ev, pl_mirror p, pl_fs p, pl_taken p, pl_threads p ! t)"])
       (auto simp: same_config_def count_page_def Let_def
          split: if_splits list.splits option.splits sum.splits prod.splits)
  with True st show ?thesis by (simp add: pool_step_def)
qed

lemma pool_run_snoc: "pool_run ev p (sched @ [t]) = pool_step ev (pool_run ev p sched) t"
  by (simp add: pool_run_def)

lemma pool_run_ok: "pool_ok ev p \<Longrightarrow> pool_ok ev (pool_run ev p sched)"
  by (induction sched rule: rev_induct) (simp_all add: pool_run_def pool_step_ok)

lemma pool_run_config: "same_config (pl_mirror p) (pl_mirror (pool_run ev p sched))"
proof (induction sched rule: rev_induct)
  case Nil
  then show ?case by (simp add: pool_run_def same_config_refl)
next
  case (snoc t sched)
  then show ?case
    using pool_step_config same_config_trans by (fastforce simp: pool_run_snoc)
qed

lemma pool_run_capped:
  assumes "pool_ok ev p" and "0 < max_pages (pl_mirror p)"
    and "page_count (pl_mirror p) \<le> max_pages (pl_mirror p)"
  shows "page_count (pl_mirror (pool_run ev p sched)) \<le> max_pages (pl_mirror p)"
proof (induction sched rule: rev_induct)
  case Nil
  with assms(3) show ?case by (simp add: pool_run_def)
next
  case (snoc t sched)
  let ?q = "pool_run ev p sched"
  have ok: "pool_ok ev ?q" by (rule pool_run_ok[OF assms(1)])
  have mp: "max_pages (pl_mirror ?q) = max_pages (pl_mirror p)"
    using pool_run_config[of p ev sched] by (simp add: same_config_def)
  show ?case
  proof (cases "page_count (pl_mirror (pool_step ev ?q t)) = page_count (pl_mirror ?q)")
    case True
    with snoc show ?thesis by (simp add: pool_run_snoc)
  next
    case False
    from pool_step_counter[OF ok False] mp assms(2) show ?thesis
      by (auto simp: pool_run_snoc)
  qed
qed

lemma pool_start_ok:
  assumes "pool_start ipv robots_read fs start out incl maxp ignore ua workers = Inr p0"
  shows "pool_ok ev p0" and "page_count (pl_mirror p0) = 0" and "max_pages (pl_mirror p0) = maxp"
proof -
  from assms obtain m m1 fs1 where
    i: "site_mirror_init ipv robots_read start out incl maxp ignore ua = Inr m"
    and e: "enqueue ipv m (start_url m) = Inr m1"
    and p: "p0 = pool_init m1 fs1 workers"
    by (auto simp: pool_start_def bind_err_Inr)
  from p show "pool_ok ev p0"
    by (simp add: pool_ok_def pool_init_def thread_ok_def)
  from site_mirror_init_fresh(1,2)[OF i] enqueue_keeps(1,2)[OF e] p
  show "page_count (pl_mirror p0) = 0" and "max_pages (pl_mirror p0) = maxp"
    by (simp_all add: pool_init_def same_config_def)
qed


text \<open>
  C9. Workers take turns in any order, each step of a worker being one block under the
  lock, one queue operation or one saving. With a page cap (\<open>max_pages > 0\<close>) the page
  counter, which starts at 0, never exceeds the cap, under every schedule. In every state
  that a schedule reaches, a step changes the counter only when it is the locked counting
  block of a worker that holds an HTML response with status 200, recorded as saved, while
  the counter is below the cap (or no cap is set), and then by one: a worker that holds a
  response that is not HTML never changes the counter.
\<close>

theorem page_counter_capped:
  "(0 < maxp \<and> pool_start ipv robots_read fs start out incl maxp ignore ua workers = Inr p0
      \<longrightarrow> page_count (pl_mirror (pool_run ev p0 sched)) \<le> maxp) \<and>
   (pool_start ipv robots_read fs start out incl maxp ignore ua workers = Inr p0 \<and>
    page_count (pl_mirror (pool_step ev (pool_run ev p0 sched) t))
      \<noteq> page_count (pl_mirror (pool_run ev p0 sched))
      \<longrightarrow> (\<exists>u resp. t < length (pl_threads (pool_run ev p0 sched)) \<and>
             pl_threads (pool_run ev p0 sched) ! t = Branching u resp \<and>
             env_get ev u = Some resp \<and> status_code resp = 200 \<and>
             is_html (response_content_type resp) \<and>
             u \<in> saved_urls (pl_mirror (pool_run ev p0 sched)) \<and>
             (maxp = 0 \<or> page_count (pl_mirror (pool_run ev p0 sched)) < maxp) \<and>
             page_count (pl_mirror (pool_step ev (pool_run ev p0 sched) t))
               = page_count (pl_mirror (pool_run ev p0 sched)) + 1))"
proof (intro conjI impI)
  assume h: "0 < maxp \<and> pool_start ipv robots_read fs start out incl maxp ignore ua workers = Inr p0"
  then have "pool_ok ev p0" "page_count (pl_mirror p0) = 0" "max_pages (pl_mirror p0) = maxp"
    using pool_start_ok(1)[of ipv robots_read fs start out incl maxp ignore ua workers p0 ev]
      pool_start_ok(2,3)[of ipv robots_read fs start out incl maxp ignore ua workers p0]
    by simp_all
  with h pool_run_capped[of ev p0 sched] show "page_count (pl_mirror (pool_run ev p0 sched)) \<le> maxp"
    by simp
next
  let ?p = "pool_run ev p0 sched"
  assume h: "pool_start ipv robots_read fs start out incl maxp ignore ua workers = Inr p0 \<and>
    page_count (pl_mirror (pool_step ev ?p t)) \<noteq> page_count (pl_mirror ?p)"
  then have st: "pool_start ipv robots_read fs start out incl maxp ignore ua workers = Inr p0"
    by simp
  have ok: "pool_ok ev ?p"
    by (rule pool_run_ok[OF pool_start_ok(1)[OF st]])
  have mp: "max_pages (pl_mirror ?p) = maxp"
    using pool_start_ok(3)[OF st] pool_run_config[of p0 ev sched] by (simp add: same_config_def)
  from h have ne: "page_count (pl_mirror (pool_step ev ?p t)) \<noteq> page_count (pl_mirror ?p)"
    by simp
  from pool_step_counter[OF ok ne] mp
  show "\<exists>u resp. t < length (pl_threads ?p) \<and> pl_threads ?p ! t = Branching u resp \<and>
             env_get ev u = Some resp \<and> status_code resp = 200 \<and>
             is_html (response_content_type resp) \<and> u \<in> saved_urls (pl_mirror ?p) \<and>
             (maxp = 0 \<or> page_count (pl_mirror ?p) < maxp) \<and>
             page_count (pl_mirror (pool_step ev ?p t)) = page_count (pl_mirror ?p) + 1"
    by simp
qed

lemma pool_A_start:
  "pool_start any_host robots_down empty_fs ''https://ex.com/'' out_A False maxp True ''SiteMirrorBot/1.0'' 2
     = Inr (pool_init ((mirror_A maxp True)\<lparr>seen_urls := {''https://ex.com/''},
                                            work_q := [CrawlTask ''https://ex.com/'']\<rparr>)
              \<lparr>fs_dirs = {out_A}, fs_files = []\<rparr> 2)"
proof -
  have "mkdir_parents empty_fs out_A = Inr \<lparr>fs_dirs = {out_A}, fs_files = []\<rparr>"
    by (simp add: mkdir_parents_def out_A_def empty_fs_def is_file_def is_dir_def fs_canon_def
        canon_step_def)
  moreover have "enqueue any_host (mirror_A maxp True) ''https://ex.com/'' =
      Inr ((mirror_A maxp True)\<lparr>seen_urls := {''https://ex.com/''}, work_q := [CrawlTask ''https://ex.com/'']\<rparr>)"
    by (simp add: enqueue_def bind_err_def normalize_start_A mirror_A_def)
  moreover have "start_url (mirror_A maxp True) = ''https://ex.com/''"
    by (simp add: mirror_A_def)
  ultimately show ?thesis
    by (simp add: pool_start_def bind_err_def init_A_ignoring)
qed

text \<open>Two workers; the first takes the start page and saves it, the second finds the
  queue empty; the first then counts the page.\<close>

lemma pool_A_counting:
  "pool_view (pool_run (env_A about_html)
      (pool_init ((mirror_A 1 True)\<lparr>seen_urls := {''https://ex.com/''},
                                     work_q := [CrawlTask ''https://ex.com/'']\<rparr>)
         \<lparr>fs_dirs = {out_A}, fs_files = []\<rparr> 2) [0, 1, 0, 0])
   = ({''https://ex.com/''}, {''https://ex.com/''}, 0, [],
      [Branching ''https://ex.com/''
         \<lparr>status_code = 200, content_type_header = Some ''text/html; charset=utf-8'',
          content = page_A, resp_text = Inr page_A\<rparr>, Waiting],
      [''https://ex.com/''],
      [(\<lparr>p_root = [], p_parts = [''out'', ''ex.com'', ''index.html'']\<rparr>, page_A)])"
  by code_simp

theorem page_counter_capped_witness:
  "(0::int) < 1 \<and>
   pool_start any_host robots_down empty_fs ''https://ex.com/'' out_A False 1 True ''SiteMirrorBot/1.0'' 2
     = Inr (pool_init ((mirror_A 1 True)\<lparr>seen_urls := {''https://ex.com/''},
                                           work_q := [CrawlTask ''https://ex.com/'']\<rparr>)
              \<lparr>fs_dirs = {out_A}, fs_files = []\<rparr> 2) \<and>
   page_count (pl_mirror (pool_run (env_A about_html)
      (pool_init ((mirror_A 1 True)\<lparr>seen_urls := {''https://ex.com/''},
                                     work_q := [CrawlTask ''https://ex.com/'']\<rparr>)
         \<lparr>fs_dirs = {out_A}, fs_files = []\<rparr> 2) [0, 1, 0, 0])) = 0 \<and>
   page_count (pl_mirror (pool_step (env_A about_html) (pool_run (env_A about_html)
      (pool_init ((mirror_A 1 True)\<lparr>seen_urls := {''https://ex.com/''},
                                     work_q := [CrawlTask ''https://ex.com/'']\<rparr>)
         \<lparr>fs_dirs = {out_A}, fs_files = []\<rparr> 2) [0, 1, 0, 0]) 0)) = 1 \<and>
   page_count (pl_mirror (pool_run (env_A about_html)
      (pool_init ((mirror_A 1 True)\<lparr>seen_urls := {''https://ex.com/''},
                                     work_q := [CrawlTask ''https://ex.com/'']\<rparr>)
         \<lparr>fs_dirs = {out_A}, fs_files = []\<rparr> 2) [0, 1, 0, 0, 0])) \<le> 1"
proof -
  let ?init = "pool_init ((mirror_A 1 True)\<lparr>seen_urls := {''https://ex.com/''},
                                     work_q := [CrawlTask ''https://ex.com/'']\<rparr>)
         \<lparr>fs_dirs = {out_A}, fs_files = []\<rparr> 2"
  let ?st = "pool_run (env_A about_html) ?init [0, 1, 0, 0]"
  from pool_A_counting have before: "page_count (pl_mirror ?st) = 0"
    and th: "pl_threads ?st = [Branching ''https://ex.com/''
         \<lparr>status_code = 200, content_type_header = Some ''text/html; charset=utf-8'',
          content = page_A, resp_text = Inr page_A\<rparr>, Waiting]"
    by (simp_all add: pool_view_def)
  have mp: "max_pages (pl_mirror ?st) = 1"
    using pool_run_config[of ?init "env_A about_html" "[0, 1, 0, 0]"]
    by (simp add: same_config_def pool_init_def mirror_A_def)
  have html: "is_html (response_content_type
         \<lparr>status_code = 200, content_type_header = Some ''text/html; charset=utf-8'',
          content = page_A, resp_text = Inr page_A\<rparr>)"
    by code_simp
  have after: "page_count (pl_mirror (pool_step (env_A about_html) ?st 0)) = 1"
    using before th mp html by (simp add: pool_step_def count_page_def)
  from before after pool_A_start[of 1]
    page_counter_capped[of 1 any_host robots_down empty_fs "''https://ex.com/''" out_A False True
      "''SiteMirrorBot/1.0''" 2 ?init "env_A about_html" "[0, 1, 0, 0, 0]" 0]
    page_counter_capped[of 1 any_host robots_down empty_fs "''https://ex.com/''" out_A False True
      "''SiteMirrorBot/1.0''" 2 ?init "env_A about_html" "[0, 1, 0, 0]" 0]
  show ?thesis
    by simp
qed

end
